theory Spec2Isabelle
  imports Complex_Main
begin

section \<open>The mortgage calculator: formula library and term sweep\<close>

text \<open>
  The program is \<^verbatim>\<open>src/mortage_calculator.py\<close>. Its numbers are Python floats, that is
  IEEE binary64 doubles. A finite double is modelled as the real number it stands for,
  and every arithmetic operation as the exact operation followed by rounding to the
  nearest double, ties to even, with the subnormal range. So the effects of rounding
  that change what the program does are in the model: a small term absorbed by a large
  one (\<open>1 + r\<close> is 1 for a tiny \<open>r\<close>), a power that underflows to zero, and a power too
  large for a double, on which \<^verbatim>\<open>math.pow\<close> and the built-in \<^verbatim>\<open>pow\<close> raise
  \<^verbatim>\<open>OverflowError\<close>. A division by zero raises \<^verbatim>\<open>ZeroDivisionError\<close>, and
  \<^verbatim>\<open>math.pow\<close> raises \<^verbatim>\<open>ValueError\<close> outside its domain.

  Three idealisations remain. The power functions of the C library are taken as
  correctly rounded. A sum, product or quotient beyond the largest double, which
  Python carries on as \<^verbatim>\<open>inf\<close> and \<^verbatim>\<open>nan\<close>, is not followed: the model's doubles have no
  largest exponent outside the power functions. Python's integers (the terms of the
  sweep, the constant 12) are the doubles of the same value, which is exact below
  \<open>2 ^ 53\<close>.
\<close>

subsection \<open>Doubles: rounding to nearest, ties to even\<close>

definition round_half_even :: "real \<Rightarrow> int" where
  "round_half_even z =
     (let n = \<lfloor>z\<rfloor>; r = z - of_int n
      in if r < 1 / 2 then n else if 1 / 2 < r then n + 1 else if even n then n else n + 1)"

text \<open>
  The exponent of the unit in the last place of \<open>x\<close>: 52 below the exponent of \<open>x\<close>,
  and never below \<open>- 1074\<close>, the exponent of the smallest subnormal.
\<close>

definition quantum_exponent :: "real \<Rightarrow> int" where
  "quantum_exponent x = max \<lfloor>log 2 \<bar>x\<bar>\<rfloor> (- 1022) - 52"

definition round_double :: "real \<Rightarrow> real" where
  "round_double x =
     (if x = 0 then 0
      else of_int (round_half_even (x / 2 powi quantum_exponent x)) * 2 powi quantum_exponent x)"

text \<open>A value at or beyond the midpoint between the largest double and \<open>2 ^ 1024\<close>.\<close>

definition overflows :: "real \<Rightarrow> bool" where
  "overflows v \<longleftrightarrow> 2 ^ 1024 - 2 ^ 970 \<le> \<bar>v\<bar>"

definition float_add :: "real \<Rightarrow> real \<Rightarrow> real" where
  "float_add x y = round_double (x + y)"

definition float_sub :: "real \<Rightarrow> real \<Rightarrow> real" where
  "float_sub x y = round_double (x - y)"

definition float_mul :: "real \<Rightarrow> real \<Rightarrow> real" where
  "float_mul x y = round_double (x * y)"

subsection \<open>Python's arithmetic, with its failures\<close>

datatype py_error = ZeroDivisionError | ValueError | OverflowError | ComplexArithmetic

text \<open>
  The first three are Python's exceptions. \<open>ComplexArithmetic\<close> is not one: it marks
  the one place where \<open>calculate_opportunity_cost\<close> would carry on in complex numbers,
  a place its guard keeps it from (lemma \<open>opportunity_cost_power\<close> below).
\<close>

datatype py_number = PyFloat real | PyComplex complex

text \<open>Sequencing of two computations that may raise: the first error wins.\<close>

definition bind_result :: "py_error + 'a \<Rightarrow> ('a \<Rightarrow> py_error + 'b) \<Rightarrow> py_error + 'b" where
  "bind_result m f = (case m of Inl e \<Rightarrow> Inl e | Inr v \<Rightarrow> f v)"

text \<open>The float division \<^verbatim>\<open>a / b\<close>.\<close>

definition py_div :: "real \<Rightarrow> real \<Rightarrow> py_error + real" where
  "py_div a b = (if b = 0 then Inl ZeroDivisionError else Inr (round_double (a / b)))"

definition is_integral :: "real \<Rightarrow> bool" where
  "is_integral y \<longleftrightarrow> of_int \<lfloor>y\<rfloor> = y"

text \<open>The result of a power function: \<^verbatim>\<open>OverflowError\<close>, or the rounded value.\<close>

definition power_result :: "real \<Rightarrow> py_error + real" where
  "power_result v = (if overflows v then Inl OverflowError else Inr (round_double v))"

text \<open>
  \<^verbatim>\<open>math.pow(x, y)\<close>: a zero base with a negative exponent and a negative base with a
  fractional exponent raise \<^verbatim>\<open>ValueError\<close>; \<^verbatim>\<open>math.pow(x, 0)\<close> is 1 for every \<open>x\<close>.
\<close>

definition math_pow :: "real \<Rightarrow> real \<Rightarrow> py_error + real" where
  "math_pow x y =
     (if x = 0 \<and> y < 0 then Inl ValueError
      else if is_integral y then power_result (x powi \<lfloor>y\<rfloor>)
      else if x < 0 then Inl ValueError
      else power_result (x powr y))"

text \<open>
  A negative float to a fractional power is a complex number in Python: the float is
  taken as a complex number of modulus \<open>\<bar>x\<bar>\<close> and argument \<open>pi\<close>, and the power has the
  modulus \<open>\<bar>x\<bar> ^ y\<close> and the argument \<open>pi * y\<close>.
\<close>

definition complex_pow :: "real \<Rightarrow> real \<Rightarrow> py_error + py_number" where
  "complex_pow x y =
     (let len = \<bar>x\<bar> powr y;
          phase = float_mul (round_double pi) y
      in if overflows len then Inl OverflowError
         else Inr (PyComplex (Complex (float_mul (round_double len) (round_double (cos phase)))
                                      (float_mul (round_double len) (round_double (sin phase))))))"

text \<open>
  The built-in \<^verbatim>\<open>pow(x, y)\<close> on floats: a zero base with a negative exponent raises
  \<^verbatim>\<open>ZeroDivisionError\<close>; a negative base with a fractional exponent gives a complex
  number and raises nothing.
\<close>

definition py_pow :: "real \<Rightarrow> real \<Rightarrow> py_error + py_number" where
  "py_pow x y =
     (if x = 0 \<and> y < 0 then Inl ZeroDivisionError
      else if is_integral y then map_sum id PyFloat (power_result (x powi \<lfloor>y\<rfloor>))
      else if x < 0 then complex_pow x y
      else map_sum id PyFloat (power_result (x powr y)))"

text \<open>
  The division \<^verbatim>\<open>v / p\<close> of a float by the result of \<^verbatim>\<open>pow\<close>. A complex quotient is
  rounded in each component.
\<close>

fun py_truediv :: "real \<Rightarrow> py_number \<Rightarrow> py_error + py_number" where
  "py_truediv v (PyFloat p) = map_sum id PyFloat (py_div v p)"
| "py_truediv v (PyComplex z) =
     (if z = 0 then Inl ZeroDivisionError
      else Inr (PyComplex (Complex (round_double (Re (of_real v / z)))
                                   (round_double (Im (of_real v / z))))))"

subsection \<open>The formula library\<close>

definition calculate_monthly_payment :: "real \<Rightarrow> real \<Rightarrow> real \<Rightarrow> py_error + real" where
  "calculate_monthly_payment loan_amount annual_interest_rate years =
     (let monthly_interest_rate = round_double (annual_interest_rate / 12);
          num_payments = float_mul 12 years;
          numerator = float_mul loan_amount monthly_interest_rate
      in bind_result (math_pow (float_add 1 monthly_interest_rate) (- num_payments)) (\<lambda>p.
           let denominator = float_sub 1 p
           in py_div numerator denominator))"

definition calculate_total_interest :: "real \<Rightarrow> real \<Rightarrow> real \<Rightarrow> real" where
  "calculate_total_interest loan_amount monthly_payment years =
     (let total_paid = float_mul (float_mul monthly_payment 12) years;
          total_interest = float_sub total_paid loan_amount
      in total_interest)"

definition calculate_opportunity_cost :: "real \<Rightarrow> real \<Rightarrow> real \<Rightarrow> py_error + real" where
  "calculate_opportunity_cost payment_diff years annual_investment_return =
     (let monthly_return = round_double (annual_investment_return / 12);
          months = float_mul years 12
      in if monthly_return > 0
         then bind_result (py_pow (float_add 1 monthly_return) months) (\<lambda>p.
                case p of
                  PyFloat p \<Rightarrow>
                    bind_result (py_div (float_sub p 1) monthly_return) (\<lambda>growth.
                      Inr (float_mul payment_diff growth))
                | PyComplex z \<Rightarrow> Inl ComplexArithmetic)
         else Inr (float_mul payment_diff months))"

definition calculate_inflation_adjusted_value :: "real \<Rightarrow> real \<Rightarrow> real \<Rightarrow> py_error + py_number" where
  "calculate_inflation_adjusted_value v years annual_inflation_rate =
     bind_result (py_pow (float_add 1 annual_inflation_rate) years) (\<lambda>p. py_truediv v p)"

subsection \<open>The term sweep\<close>

text \<open>
  The constants the script sets at module level, as one record of inputs. A decimal
  literal is the double nearest to it.
\<close>

record config =
  loan_amount :: real
  annual_interest_rate :: real
  investment_return_rate :: real
  annual_inflation_rate :: real
  monthly_salary :: real

definition script_config :: config where
  "script_config =
     \<lparr>loan_amount = 2500000, annual_interest_rate = round_double (8 / 100),
      investment_return_rate = round_double (4 / 10),
      annual_inflation_rate = round_double (28 / 100),
      monthly_salary = 200000\<rparr>"

text \<open>One entry of \<^verbatim>\<open>term_results\<close>; the key \<^verbatim>\<open>"term"\<close> is the field \<open>term_years\<close>.\<close>

record term_result =
  term_years :: int
  monthly_payment :: real
  total_interest :: real
  total_cost :: real
  savings :: real
  investment_value_in_term :: real
  investment_value :: real

text \<open>
  The investment branch of the loop body: the pair
  \<open>(investment_value_in_term, investment_value)\<close> for a term and its payment.
\<close>

definition investment_values :: "config \<Rightarrow> int \<Rightarrow> real \<Rightarrow> py_error + (real \<times> real)" where
  "investment_values cfg t mp =
     (if t < 30 then
        (let payment_diff = float_sub (monthly_salary cfg) mp
         in if payment_diff < 0 then
              (let remaining_years = 30 - t
               in bind_result
                    (calculate_opportunity_cost (monthly_salary cfg) (of_int remaining_years)
                       (investment_return_rate cfg))
                    (\<lambda>iv. Inr (0, iv)))
            else
              bind_result
                (calculate_opportunity_cost payment_diff (of_int t) (investment_return_rate cfg))
                (\<lambda>iv_in_term.
                   let remaining_years = 30 - t
                   in bind_result
                        (calculate_opportunity_cost (monthly_salary cfg)
                           (of_int remaining_years) (investment_return_rate cfg))
                        (\<lambda>rest. Inr (iv_in_term, float_add iv_in_term rest))))
      else Inr (0, 0))"

text \<open>The body of the loop for one term, given the baseline \<open>total_cost_30\<close>.\<close>

definition term_record :: "config \<Rightarrow> real \<Rightarrow> int \<Rightarrow> py_error + term_result" where
  "term_record cfg total_cost_30 t =
     bind_result
       (calculate_monthly_payment (loan_amount cfg) (annual_interest_rate cfg) (of_int t))
       (\<lambda>mp.
          let ti = calculate_total_interest (loan_amount cfg) mp (of_int t);
              tc = float_add (loan_amount cfg) ti;
              sv = float_sub total_cost_30 tc
          in bind_result (investment_values cfg t mp) (\<lambda>(iv_in_term, iv).
               Inr \<lparr>term_years = t, monthly_payment = mp, total_interest = ti,
                    total_cost = tc, savings = sv,
                    investment_value_in_term = iv_in_term, investment_value = iv\<rparr>))"

text \<open>
  The loop \<^verbatim>\<open>for term in range(1, 31)\<close>: each record is appended to the list built so
  far, and an exception in the body ends the run.
\<close>

fun sweep_loop :: "config \<Rightarrow> real \<Rightarrow> int list \<Rightarrow> term_result list \<Rightarrow> py_error + term_result list" where
  "sweep_loop cfg total_cost_30 [] term_results = Inr term_results"
| "sweep_loop cfg total_cost_30 (t # ts) term_results =
     (case term_record cfg total_cost_30 t of
        Inl e \<Rightarrow> Inl e
      | Inr r \<Rightarrow> sweep_loop cfg total_cost_30 ts (term_results @ [r]))"

text \<open>The script up to the end of the loop: the baseline of 30 years, then the sweep.\<close>

definition term_sweep :: "config \<Rightarrow> py_error + term_result list" where
  "term_sweep cfg =
     (let years_30 = 30
      in bind_result
           (calculate_monthly_payment (loan_amount cfg) (annual_interest_rate cfg) years_30)
           (\<lambda>payment_30.
              let total_interest_30 = calculate_total_interest (loan_amount cfg) payment_30 years_30;
                  total_cost_30 = float_add (loan_amount cfg) total_interest_30
              in sweep_loop cfg total_cost_30 [1..30] []))"

text \<open>The value of \<^verbatim>\<open>total_cost_30\<close> that the script derives from \<^verbatim>\<open>payment_30\<close>.\<close>

definition baseline_cost :: "config \<Rightarrow> real \<Rightarrow> real" where
  "baseline_cost cfg payment_30 =
     float_add (loan_amount cfg) (calculate_total_interest (loan_amount cfg) payment_30 30)"

section \<open>Auxiliary facts\<close>

subsection \<open>Rounding to a double\<close>

lemma round_half_even_of_int [simp]: "round_half_even (of_int n) = n"
  by (simp add: round_half_even_def)

lemma round_half_even_bounds:
  "\<lfloor>z\<rfloor> \<le> round_half_even z" "round_half_even z \<le> \<lfloor>z\<rfloor> + 1"
  by (simp_all add: round_half_even_def Let_def)

lemma round_half_even_mono:
  assumes "z \<le> w"
  shows "round_half_even z \<le> round_half_even w"
proof (cases "\<lfloor>z\<rfloor> = \<lfloor>w\<rfloor>")
  case True
  then show ?thesis
    using assms by (auto simp: round_half_even_def Let_def)
next
  case False
  then have "\<lfloor>z\<rfloor> < \<lfloor>w\<rfloor>" using assms floor_mono [of z w] by linarith
  then show ?thesis
    using round_half_even_bounds(2) [of z] round_half_even_bounds(1) [of w] by linarith
qed

lemma round_half_even_minus: "round_half_even (- z) = - round_half_even z"
proof (cases "z = of_int \<lfloor>z\<rfloor>")
  case True
  then obtain n where "z = of_int n" ..
  then have "- z = of_int (- n)" by simp
  then show ?thesis unfolding \<open>z = of_int n\<close>
    by (metis round_half_even_of_int)
next
  case False
  then have frac: "0 < z - of_int \<lfloor>z\<rfloor>" "z - of_int \<lfloor>z\<rfloor> < 1"
    using of_int_floor_le [of z] by linarith+
  have fl: "\<lfloor>- z\<rfloor> = - \<lfloor>z\<rfloor> - 1"
    using frac by (intro floor_unique) simp_all
  show ?thesis
    unfolding round_half_even_def Let_def fl using frac
    by (auto simp: algebra_simps)
qed

lemma round_half_even_ge: "of_int n \<le> z \<Longrightarrow> n \<le> round_half_even z"
  using round_half_even_mono [of "of_int n" z] by simp

lemma round_half_even_le: "z \<le> of_int n \<Longrightarrow> round_half_even z \<le> n"
  using round_half_even_mono [of z "of_int n"] by simp

lemma round_double_zero [simp]: "round_double 0 = 0"
  by (simp add: round_double_def)

lemma quantum_exponent_minus [simp]: "quantum_exponent (- x) = quantum_exponent x"
  by (simp add: quantum_exponent_def)

lemma round_double_minus: "round_double (- x) = - round_double x"
  by (simp add: round_double_def round_half_even_minus)

lemma round_half_even_zero [simp]: "round_half_even 0 = 0"
  using round_half_even_of_int [of 0] by simp

lemma powr_of_int_two: "2 powr of_int k = (2::real) powi k"
  by (simp add: powr_real_of_int')

lemma floor_log2_bounds:
  assumes "0 < x"
  shows "2 powi \<lfloor>log 2 x\<rfloor> \<le> x" "x < 2 powi (\<lfloor>log 2 x\<rfloor> + 1)"
proof -
  have x: "2 powr log 2 x = x" using assms by simp
  have "2 powr of_int \<lfloor>log 2 x\<rfloor> \<le> 2 powr log 2 x"
    by (intro powr_mono) simp_all
  then show "2 powi \<lfloor>log 2 x\<rfloor> \<le> x"
    unfolding x powr_of_int_two .
  have "log 2 x < of_int (\<lfloor>log 2 x\<rfloor> + 1)" by linarith
  then have "2 powr log 2 x < 2 powr of_int (\<lfloor>log 2 x\<rfloor> + 1)"
    by (intro powr_less_mono) simp_all
  then show "x < 2 powi (\<lfloor>log 2 x\<rfloor> + 1)"
    unfolding x powr_of_int_two .
qed

lemma floor_log2_eq:
  assumes "2 powi e \<le> x" "x < 2 powi (e + 1)"
  shows "\<lfloor>log 2 x\<rfloor> = e"
proof -
  have x: "0 < x" using assms(1) zero_less_power_int [of "2::real" e] by linarith
  have "2 powr of_int e \<le> x" "x < 2 powr of_int (e + 1)"
    using assms unfolding powr_of_int_two by simp_all
  then have "of_int e \<le> log 2 x" "log 2 x < of_int (e + 1)"
    using x by (simp_all only: le_log_iff log_less_iff rel_simps)
  then show ?thesis by linarith
qed

lemma round_double_eval:
  assumes "2 powi e \<le> \<bar>x\<bar>" "\<bar>x\<bar> < 2 powi (e + 1)" "- 1022 \<le> e"
  shows "round_double x = of_int (round_half_even (x / 2 powi (e - 52))) * 2 powi (e - 52)"
proof -
  have "0 < (2::real) powi e" by simp
  then have "0 < \<bar>x\<bar>" using assms(1) by linarith
  then have x: "x \<noteq> 0" by auto
  have "\<lfloor>log 2 \<bar>x\<bar>\<rfloor> = e" using assms(1,2) by (rule floor_log2_eq)
  then have "quantum_exponent x = e - 52"
    using assms(3) by (simp add: quantum_exponent_def)
  with x show ?thesis by (simp add: round_double_def)
qed

lemma round_double_eval_subnormal:
  assumes "\<bar>x\<bar> < 2 powi (- 1022)"
  shows "round_double x = of_int (round_half_even (x / 2 powi (- 1074))) * 2 powi (- 1074)"
proof (cases "x = 0")
  case True
  then show ?thesis by simp
next
  case False
  then have "0 < \<bar>x\<bar>" by simp
  from floor_log2_bounds(1) [OF this] assms
  have "(2::real) powi \<lfloor>log 2 \<bar>x\<bar>\<rfloor> < 2 powi (- 1022)" by linarith
  then have "\<lfloor>log 2 \<bar>x\<bar>\<rfloor> < - 1022"
    using power_int_increasing [of "- 1022" "\<lfloor>log 2 \<bar>x\<bar>\<rfloor>" "2::real"]
    by (cases "- 1022 \<le> \<lfloor>log 2 \<bar>x\<bar>\<rfloor>") simp_all
  then have "quantum_exponent x = - 1074" by (simp add: quantum_exponent_def)
  then show ?thesis using False by (simp add: round_double_def)
qed

lemma quantum_exponent_upper:
  assumes "x \<noteq> 0"
  shows "\<bar>x\<bar> < 2 powi (quantum_exponent x + 53)"
proof -
  have "\<bar>x\<bar> < 2 powi (\<lfloor>log 2 \<bar>x\<bar>\<rfloor> + 1)"
    using assms by (intro floor_log2_bounds) simp
  also have "\<dots> \<le> 2 powi (quantum_exponent x + 53)"
    by (intro power_int_increasing) (simp_all add: quantum_exponent_def)
  finally show ?thesis .
qed

lemma round_double_nonneg:
  assumes "0 \<le> x"
  shows "0 \<le> round_double x"
proof (cases "x = 0")
  case True
  then show ?thesis by simp
next
  case False
  have "0 \<le> x / 2 powi quantum_exponent x" using assms by simp
  then have "0 \<le> round_half_even (x / 2 powi quantum_exponent x)"
    using round_half_even_ge [of 0] by simp
  then show ?thesis using False by (simp add: round_double_def)
qed

lemma round_double_nonpos: "x \<le> 0 \<Longrightarrow> round_double x \<le> 0"
  using round_double_nonneg [of "- x"] by (simp add: round_double_minus)

lemma round_double_upper:
  assumes "0 < x"
  shows "round_double x \<le> 2 powi (quantum_exponent x + 53)"
proof -
  let ?q = "quantum_exponent x"
  have "x / 2 powi ?q < 2 powi (?q + 53) / 2 powi ?q"
    using quantum_exponent_upper [of x] assms by (simp add: divide_strict_right_mono)
  also have "\<dots> = of_int (2 ^ 53)"
    by (simp add: power_int_add)
  finally have "round_half_even (x / 2 powi ?q) \<le> 2 ^ 53"
    by (intro round_half_even_le) simp
  then have "of_int (round_half_even (x / 2 powi ?q)) * 2 powi ?q \<le> of_int (2 ^ 53) * (2::real) powi ?q"
    by (intro mult_right_mono) simp_all
  then show ?thesis using assms by (simp add: round_double_def power_int_add)
qed

lemma round_double_lower:
  assumes "0 < x" "- 1022 \<le> \<lfloor>log 2 x\<rfloor>"
  shows "2 powi (quantum_exponent x + 52) \<le> round_double x"
proof -
  let ?q = "quantum_exponent x"
  have q: "?q + 52 = \<lfloor>log 2 x\<rfloor>"
    using assms by (simp add: quantum_exponent_def)
  have "2 powi (?q + 52) \<le> x"
    unfolding q using assms(1) by (rule floor_log2_bounds)
  then have "2 powi (?q + 52) / 2 powi ?q \<le> x / 2 powi ?q"
    by (simp add: divide_right_mono)
  moreover have "2 powi (?q + 52) / 2 powi ?q = (of_int (2 ^ 52) :: real)"
    by (simp add: power_int_add)
  ultimately have "2 ^ 52 \<le> round_half_even (x / 2 powi ?q)"
    by (intro round_half_even_ge) simp
  then have "of_int (2 ^ 52) * (2::real) powi ?q \<le> of_int (round_half_even (x / 2 powi ?q)) * 2 powi ?q"
    by (intro mult_right_mono) simp_all
  then show ?thesis using assms by (simp add: round_double_def power_int_add)
qed

lemma quantum_exponent_mono:
  assumes "0 < x" "x \<le> y"
  shows "quantum_exponent x \<le> quantum_exponent y"
proof -
  have "log 2 x \<le> log 2 y" using assms by simp
  then have "\<lfloor>log 2 x\<rfloor> \<le> \<lfloor>log 2 y\<rfloor>" by (rule floor_mono)
  then show ?thesis using assms by (simp add: quantum_exponent_def)
qed

lemma round_double_mono_pos:
  assumes "0 < x" "x \<le> y"
  shows "round_double x \<le> round_double y"
proof (cases "quantum_exponent x = quantum_exponent y")
  case True
  have "x / 2 powi quantum_exponent y \<le> y / 2 powi quantum_exponent y"
    using assms by (simp add: divide_right_mono)
  then have "round_half_even (x / 2 powi quantum_exponent y)
      \<le> round_half_even (y / 2 powi quantum_exponent y)"
    by (rule round_half_even_mono)
  then have "of_int (round_half_even (x / 2 powi quantum_exponent y)) * (2::real) powi quantum_exponent y
      \<le> of_int (round_half_even (y / 2 powi quantum_exponent y)) * 2 powi quantum_exponent y"
    by (intro mult_right_mono) simp_all
  then show ?thesis using assms True by (simp add: round_double_def)
next
  case False
  then have lt: "quantum_exponent x < quantum_exponent y"
    using quantum_exponent_mono [OF assms] by simp
  have y: "0 < y" using assms by simp
  have "- 1022 \<le> \<lfloor>log 2 y\<rfloor>"
  proof (rule ccontr)
    assume "\<not> - 1022 \<le> \<lfloor>log 2 y\<rfloor>"
    then have "quantum_exponent y = - 1074" using y by (simp add: quantum_exponent_def)
    moreover have "- 1074 \<le> quantum_exponent x" by (simp add: quantum_exponent_def)
    ultimately show False using lt by simp
  qed
  from round_double_lower [OF y this]
  have "2 powi (quantum_exponent y + 52) \<le> round_double y" .
  moreover have "round_double x \<le> 2 powi (quantum_exponent x + 53)"
    using assms(1) by (rule round_double_upper)
  moreover have "(2::real) powi (quantum_exponent x + 53) \<le> 2 powi (quantum_exponent y + 52)"
    using lt by (intro power_int_increasing) simp_all
  ultimately show ?thesis by linarith
qed

lemma round_double_mono:
  assumes "x \<le> y"
  shows "round_double x \<le> round_double y"
proof -
  consider "0 < x" | "x \<le> 0" "0 \<le> y" | "y < 0" by linarith
  then show ?thesis
  proof cases
    case 1
    then show ?thesis using assms by (rule round_double_mono_pos)
  next
    case 2
    then show ?thesis
      using round_double_nonpos [of x] round_double_nonneg [of y] by linarith
  next
    case 3
    then have "round_double (- y) \<le> round_double (- x)"
      using assms by (intro round_double_mono_pos) simp_all
    then show ?thesis by (simp add: round_double_minus)
  qed
qed

lemma power_int_less_imp_less:
  assumes "(2::real) powi a < 2 powi b"
  shows "a < b"
  using power_int_increasing [of b a "2::real"] assms by (cases "b \<le> a") simp_all

lemma round_double_representable:
  assumes "\<bar>m\<bar> < 2 ^ 53" "- 1074 \<le> k"
  shows "round_double (of_int m * 2 powi k) = of_int m * 2 powi k"
proof (cases "m = 0")
  case True
  then show ?thesis by simp
next
  case False
  let ?x = "of_int m * (2::real) powi k"
  let ?q = "quantum_exponent ?x"
  have x: "?x \<noteq> 0" using False by simp
  have "\<bar>?x\<bar> = of_int \<bar>m\<bar> * 2 powi k" by (simp add: abs_mult)
  also have "\<dots> < of_int (2 ^ 53) * 2 powi k"
    using assms(1) by (intro mult_strict_right_mono) simp_all
  also have "\<dots> = 2 powi (53 + k)" by (simp add: power_int_add)
  finally have "\<bar>?x\<bar> < 2 powi (53 + k)" .
  moreover have "2 powi \<lfloor>log 2 \<bar>?x\<bar>\<rfloor> \<le> \<bar>?x\<bar>"
    using x by (intro floor_log2_bounds) simp
  ultimately have "(2::real) powi \<lfloor>log 2 \<bar>?x\<bar>\<rfloor> < 2 powi (53 + k)" by linarith
  then have "\<lfloor>log 2 \<bar>?x\<bar>\<rfloor> < 53 + k" by (rule power_int_less_imp_less)
  then have q: "?q \<le> k" using assms(2) by (simp add: quantum_exponent_def)
  then have "(2::real) powi (k - ?q) = of_int (2 ^ nat (k - ?q))"
    by (simp add: power_int_def)
  moreover have "(2::real) powi (k - ?q) = 2 powi k / 2 powi ?q"
    by (simp add: power_int_diff)
  ultimately have "?x / 2 powi ?q = of_int m * of_int (2 ^ nat (k - ?q))"
    by (metis times_divide_eq_right)
  then have "?x / 2 powi ?q = of_int (m * 2 ^ nat (k - ?q))"
    by (simp only: of_int_mult)
  then have "round_half_even (?x / 2 powi ?q) = m * 2 ^ nat (k - ?q)"
    by (simp only: round_half_even_of_int)
  then have "round_double ?x = of_int (m * 2 ^ nat (k - ?q)) * 2 powi ?q"
    using x by (simp only: round_double_def if_False)
  also have "\<dots> = of_int m * (2 powi (k - ?q) * 2 powi ?q)"
    using q by (simp add: power_int_def)
  also have "\<dots> = ?x"
    by (simp add: power_int_diff)
  finally show ?thesis .
qed

lemma round_double_of_int:
  assumes "\<bar>m\<bar> < 2 ^ 53"
  shows "round_double (of_int m) = of_int m"
  using round_double_representable [OF assms, of 0] by simp

lemma round_double_le:
  assumes "x \<le> d" "round_double d = d"
  shows "round_double x \<le> d"
  using round_double_mono [OF assms(1)] assms(2) by simp

lemma round_double_ge:
  assumes "d \<le> x" "round_double d = d"
  shows "d \<le> round_double x"
  using round_double_mono [OF assms(1)] assms(2) by simp

lemma round_double_one [simp]: "round_double 1 = 1"
  using round_double_of_int [of 1] by simp

lemma round_double_half_ulp_above_one: "round_double (1 + 2 powi (- 53)) = 1"
proof -
  have "round_double (1 + 2 powi (- 53))
      = of_int (round_half_even ((1 + 2 powi (- 53)) / 2 powi (0 - 52))) * 2 powi (0 - 52)"
    by (rule round_double_eval) (simp_all add: power_int_minus)
  also have "(1 + 2 powi (- 53)) / 2 powi (0 - 52) = (of_int (2 ^ 52) + 1 / 2 :: real)"
    by (simp add: power_int_minus field_simps)
  also have "round_half_even (of_int (2 ^ 52) + 1 / 2) = 2 ^ 52"
    by (simp add: round_half_even_def)
  finally show ?thesis by (simp add: power_int_minus)
qed

lemma round_double_absorb:
  assumes "0 \<le> t" "t \<le> 2 powi (- 53)"
  shows "round_double (1 + t) = 1"
proof -
  have a: "round_double (1 + t) \<le> round_double (1 + 2 powi (- 53))"
    using assms by (intro round_double_mono) simp
  have b: "round_double 1 \<le> round_double (1 + t)"
    using assms by (intro round_double_mono) simp
  from a b show ?thesis
    unfolding round_double_half_ulp_above_one round_double_one by linarith
qed


subsection \<open>The loop body and the loop\<close>

lemma bind_result_InrD:
  "bind_result m f = Inr r \<Longrightarrow> \<exists>v. m = Inr v \<and> f v = Inr r"
  by (cases m) (simp_all add: bind_result_def)

lemma investment_values_baseline: "\<not> t < 30 \<Longrightarrow> investment_values cfg t mp = Inr (0, 0)"
  by (simp add: investment_values_def)

lemma investment_values_negative:
  assumes "investment_values cfg t mp = Inr (a, b)" "t < 30"
    "float_sub (monthly_salary cfg) mp < 0"
  shows "a = 0 \<and> calculate_opportunity_cost (monthly_salary cfg) (of_int (30 - t))
                     (investment_return_rate cfg) = Inr b"
  using assms unfolding investment_values_def Let_def
  by (auto dest!: bind_result_InrD)

lemma investment_values_nonnegative:
  assumes "investment_values cfg t mp = Inr (a, b)" "t < 30"
    "\<not> float_sub (monthly_salary cfg) mp < 0"
  shows "calculate_opportunity_cost (float_sub (monthly_salary cfg) mp) (of_int t)
           (investment_return_rate cfg) = Inr a
         \<and> (\<exists>rest. calculate_opportunity_cost (monthly_salary cfg) (of_int (30 - t))
                       (investment_return_rate cfg) = Inr rest
                    \<and> b = float_add a rest)"
  using assms unfolding investment_values_def Let_def
  by (auto dest!: bind_result_InrD)

lemma term_record_InrD:
  assumes "term_record cfg c t = Inr r"
  shows "term_years r = t"
    and "calculate_monthly_payment (loan_amount cfg) (annual_interest_rate cfg) (of_int t)
           = Inr (monthly_payment r)"
    and "total_interest r = calculate_total_interest (loan_amount cfg) (monthly_payment r) (of_int t)"
    and "total_cost r = float_add (loan_amount cfg) (total_interest r)"
    and "savings r = float_sub c (total_cost r)"
    and "investment_values cfg t (monthly_payment r)
           = Inr (investment_value_in_term r, investment_value r)"
  using assms unfolding term_record_def bind_result_def Let_def
  by (auto split: sum.splits prod.splits)

lemma sweep_loop_InrD:
  "sweep_loop cfg c ts acc = Inr rs \<Longrightarrow>
     \<exists>new. rs = acc @ new \<and> list_all2 (\<lambda>t r. term_record cfg c t = Inr r) ts new"
proof (induction ts arbitrary: acc)
  case Nil
  then show ?case by simp
next
  case (Cons t ts)
  from Cons.prems obtain r where r: "term_record cfg c t = Inr r"
    and rest: "sweep_loop cfg c ts (acc @ [r]) = Inr rs"
    by (auto split: sum.splits)
  from Cons.IH [OF rest] obtain new where
    "rs = (acc @ [r]) @ new" "list_all2 (\<lambda>t r. term_record cfg c t = Inr r) ts new"
    by blast
  with r have "rs = acc @ (r # new) \<and> list_all2 (\<lambda>t r. term_record cfg c t = Inr r) (t # ts) (r # new)"
    by simp
  then show ?case by blast
qed

lemma sweep_loop_succeeds:
  "\<forall>t \<in> set ts. \<exists>r. term_record cfg c t = Inr r \<Longrightarrow> \<exists>rs. sweep_loop cfg c ts acc = Inr rs"
proof (induction ts arbitrary: acc)
  case Nil
  then show ?case by simp
next
  case (Cons t ts)
  then obtain r where "term_record cfg c t = Inr r" by auto
  moreover have "\<exists>rs. sweep_loop cfg c ts (acc @ [r]) = Inr rs"
    using Cons by simp
  ultimately show ?case by simp
qed

lemma term_sweep_InrD:
  assumes "term_sweep cfg = Inr rs"
  shows "\<exists>payment_30.
           calculate_monthly_payment (loan_amount cfg) (annual_interest_rate cfg) 30 = Inr payment_30 \<and>
           list_all2 (\<lambda>t r. term_record cfg (baseline_cost cfg payment_30) t = Inr r) [1..30] rs"
proof -
  from assms obtain p where
    p: "calculate_monthly_payment (loan_amount cfg) (annual_interest_rate cfg) 30 = Inr p"
    and loop: "sweep_loop cfg (baseline_cost cfg p) [1..30] [] = Inr rs"
    unfolding term_sweep_def bind_result_def Let_def baseline_cost_def
    by (auto split: sum.splits)
  from sweep_loop_InrD [OF loop] p show ?thesis by auto
qed

lemma term_sweep_length: "term_sweep cfg = Inr rs \<Longrightarrow> length rs = 30"
  by (drule term_sweep_InrD) (auto dest: list_all2_lengthD)

lemma term_sweep_nth:
  assumes "term_sweep cfg = Inr rs" "i < 30"
  shows "\<exists>payment_30.
           calculate_monthly_payment (loan_amount cfg) (annual_interest_rate cfg) 30 = Inr payment_30 \<and>
           term_record cfg (baseline_cost cfg payment_30) (int i + 1) = Inr (rs ! i)"
proof -
  from term_sweep_InrD [OF assms(1)] obtain p where
    p: "calculate_monthly_payment (loan_amount cfg) (annual_interest_rate cfg) 30 = Inr p"
    and all: "list_all2 (\<lambda>t r. term_record cfg (baseline_cost cfg p) t = Inr r) [1..30] rs"
    by blast
  have "term_record cfg (baseline_cost cfg p) ([1..30] ! i) = Inr (rs ! i)"
    using list_all2_nthD [OF all, of i] assms(2) by simp
  moreover have "[1..30] ! i = 1 + int i"
    using assms(2) by (intro nth_upto) simp
  ultimately show ?thesis using p by (auto simp: add.commute)
qed

lemma term_sweep_terms:
  assumes "term_sweep cfg = Inr rs"
  shows "map term_years rs = [1..30]"
proof (rule nth_equalityI)
  show "length (map term_years rs) = length [1..30]"
    using term_sweep_length [OF assms] by simp
next
  fix i assume "i < length (map term_years rs)"
  then have i: "i < 30" using term_sweep_length [OF assms] by simp
  from term_sweep_nth [OF assms i] obtain p where
    "term_record cfg (baseline_cost cfg p) (int i + 1) = Inr (rs ! i)" by blast
  then have "term_years (rs ! i) = int i + 1" by (rule term_record_InrD(1))
  moreover have "[1..30] ! i = 1 + int i" using i by (intro nth_upto) simp
  ultimately show "map term_years rs ! i = [1..30] ! i"
    using i term_sweep_length [OF assms] by simp
qed

lemma term_sweep_member:
  assumes "term_sweep cfg = Inr rs" "r \<in> set rs"
  shows "\<exists>payment_30.
           calculate_monthly_payment (loan_amount cfg) (annual_interest_rate cfg) 30 = Inr payment_30 \<and>
           term_record cfg (baseline_cost cfg payment_30) (term_years r) = Inr r"
proof -
  from assms(2) obtain i where i: "i < length rs" "rs ! i = r"
    by (auto simp: in_set_conv_nth)
  then have "i < 30" using term_sweep_length [OF assms(1)] by simp
  from term_sweep_nth [OF assms(1) this] obtain p where
    p: "calculate_monthly_payment (loan_amount cfg) (annual_interest_rate cfg) 30 = Inr p"
    and r: "term_record cfg (baseline_cost cfg p) (int i + 1) = Inr r"
    using i by auto
  from term_record_InrD(1) [OF r] r p show ?thesis by auto
qed

lemma term_sweep_term_range:
  assumes "term_sweep cfg = Inr rs" "r \<in> set rs"
  shows "1 \<le> term_years r \<and> term_years r \<le> 30"
proof -
  from assms(2) have "term_years r \<in> set (map term_years rs)" by simp
  then show ?thesis unfolding term_sweep_terms [OF assms(1)] by simp
qed

lemma term_sweep_nth_term:
  assumes "term_sweep cfg = Inr rs" "i < 30"
  shows "rs ! i \<in> set rs \<and> term_years (rs ! i) = int i + 1"
proof -
  have "length rs = 30" using assms(1) by (rule term_sweep_length)
  then have "rs ! i \<in> set rs" using assms(2) by simp
  moreover from term_sweep_nth [OF assms] obtain c where
    "term_record cfg c (int i + 1) = Inr (rs ! i)" by blast
  then have "term_years (rs ! i) = int i + 1" by (rule term_record_InrD(1))
  ultimately show ?thesis by simp
qed

lemma term_sweep_succeeds_if:
  assumes "\<And>t. 1 \<le> t \<Longrightarrow> t \<le> 30 \<Longrightarrow>
             \<exists>p. calculate_monthly_payment (loan_amount cfg) (annual_interest_rate cfg) (of_int t) = Inr p"
    and "\<And>t mp. 1 \<le> t \<Longrightarrow> t \<le> 30 \<Longrightarrow> \<exists>v. investment_values cfg t mp = Inr v"
  shows "\<exists>rs. term_sweep cfg = Inr rs"
proof -
  have rec: "\<exists>r. term_record cfg c t = Inr r" if "1 \<le> t" "t \<le> 30" for c t
  proof -
    from assms(1) [OF that] obtain p where
      p: "calculate_monthly_payment (loan_amount cfg) (annual_interest_rate cfg) (of_int t) = Inr p"
      by blast
    from assms(2) [OF that, of p] obtain a b where "investment_values cfg t p = Inr (a, b)"
      by (cases "investment_values cfg t p") auto
    with p show ?thesis
      unfolding term_record_def bind_result_def Let_def by simp
  qed
  have "\<exists>p. calculate_monthly_payment (loan_amount cfg) (annual_interest_rate cfg) 30 = Inr p"
    using assms(1) [of 30] by simp
  moreover have "\<exists>rs. sweep_loop cfg c [1..30] [] = Inr rs" for c
    by (intro sweep_loop_succeeds ballI rec) simp_all
  ultimately show ?thesis
    unfolding term_sweep_def bind_result_def Let_def by (auto split: sum.splits)
qed

subsection \<open>The power functions and small numerals\<close>

lemma powi_floor_powr: "0 < x \<Longrightarrow> is_integral y \<Longrightarrow> x powi \<lfloor>y\<rfloor> = x powr y"
proof -
  assume x: "0 < x" and "is_integral y"
  then have y: "of_int \<lfloor>y\<rfloor> = y" unfolding is_integral_def by blast
  have "x powr of_int \<lfloor>y\<rfloor> = x powi \<lfloor>y\<rfloor>"
    using x by (intro powr_real_of_int') simp_all
  then show ?thesis unfolding y by simp
qed

lemma math_pow_pos: "0 < x \<Longrightarrow> math_pow x y = power_result (x powr y)"
  by (simp add: math_pow_def powi_floor_powr)

lemma py_pow_pos: "0 < x \<Longrightarrow> py_pow x y = map_sum id PyFloat (power_result (x powr y))"
  by (simp add: py_pow_def powi_floor_powr)

lemma not_overflows_le_one: "\<bar>v\<bar> \<le> 1 \<Longrightarrow> \<not> overflows v"
  unfolding overflows_def
proof
  assume "\<bar>v\<bar> \<le> 1" and "(2::real) ^ 1024 - 2 ^ 970 \<le> \<bar>v\<bar>"
  moreover have "(1::real) < 2 ^ 1024 - 2 ^ 970" by simp
  ultimately show False by linarith
qed

lemma power_result_one [simp]: "power_result 1 = Inr 1"
  by (simp add: power_result_def not_overflows_le_one)

lemma math_pow_one [simp]: "math_pow 1 y = Inr 1"
  by (simp add: math_pow_pos)

lemma py_pow_zero_exponent [simp]: "py_pow x 0 = Inr (PyFloat 1)"
  by (simp add: py_pow_def is_integral_def)

lemma round_double_dyadic:
  assumes "\<bar>m\<bar> < 2 ^ 53" "- 1074 \<le> k" "d = of_int m * 2 powi k"
  shows "round_double d = d"
  using round_double_representable [OF assms(1,2)] assms(3) by simp

lemma round_double_numeral [simp]:
  assumes "\<bar>numeral n :: int\<bar> < 2 ^ 53"
  shows "round_double (numeral n) = numeral n"
  using round_double_of_int [OF assms] by simp

lemma round_double_neg_numeral [simp]:
  assumes "\<bar>numeral n :: int\<bar> < 2 ^ 53"
  shows "round_double (- numeral n) = - numeral n"
  using round_double_numeral [OF assms] by (simp add: round_double_minus)

subsection \<open>Where the monthly payment returns\<close>

lemma round_double_gt_one:
  assumes "1 < round_double x"
  shows "1 + 2 powi (- 52) \<le> round_double x"
proof (cases "1 + 2 powi (- 52) \<le> x")
  case True
  have "round_double (1 + 2 powi (- 52)) = 1 + 2 powi (- 52)"
    by (rule round_double_dyadic [where m = "2 ^ 52 + 1" and k = "- 52"])
      (simp_all add: power_int_minus field_simps)
  with True show ?thesis by (intro round_double_ge)
next
  case False
  have x: "1 < x"
  proof (rule ccontr)
    assume "\<not> 1 < x"
    then have "round_double x \<le> 1" by (intro round_double_le) simp_all
    with assms show False by simp
  qed
  have "round_double x = of_int (round_half_even (x / 2 powi (0 - 52))) * 2 powi (0 - 52)"
    using x False by (intro round_double_eval) (simp_all add: power_int_minus)
  moreover have "2 ^ 52 + 1 \<le> round_half_even (x / 2 powi (0 - 52))"
  proof (rule ccontr)
    assume "\<not> 2 ^ 52 + 1 \<le> round_half_even (x / 2 powi (0 - 52))"
    then have "round_half_even (x / 2 powi (0 - 52)) \<le> 2 ^ 52" by simp
    then have "of_int (round_half_even (x / 2 powi (0 - 52))) * (2::real) powi (0 - 52)
        \<le> of_int (2 ^ 52) * 2 powi (0 - 52)"
      by (intro mult_right_mono) simp_all
    also have "\<dots> = 1" by (simp add: power_int_minus)
    finally have "round_double x \<le> 1"
      using \<open>round_double x = _\<close> by simp
    with assms show False by simp
  qed
  then have "of_int (2 ^ 52 + 1) * (2::real) powi (0 - 52)
      \<le> of_int (round_half_even (x / 2 powi (0 - 52))) * 2 powi (0 - 52)"
    by (intro mult_right_mono) simp_all
  moreover have "of_int (2 ^ 52 + 1) * (2::real) powi (0 - 52) = 1 + 2 powi (- 52)"
    by (simp add: power_int_minus field_simps)
  ultimately show ?thesis by simp
qed

lemma round_double_below_one: "round_double (1 - 2 powi (- 53)) = 1 - 2 powi (- 53)"
  by (rule round_double_dyadic [where m = "2 ^ 53 - 1" and k = "- 53"])
    (simp_all add: power_int_minus field_simps)

lemma round_double_pow2_neg53: "round_double (2 powi (- 53)) = 2 powi (- 53)"
  by (rule round_double_dyadic [where m = 1 and k = "- 53"]) simp_all

text \<open>The denominator of the payment, for a base above 1 and at least one payment.\<close>

lemma payment_denominator_pos:
  assumes "1 < round_double b" "1 \<le> n"
  shows "\<not> overflows (round_double b powr (- n))"
    and "2 powi (- 53) \<le> float_sub 1 (round_double (round_double b powr (- n)))"
proof -
  let ?b = "round_double b"
  have b: "1 + 2 powi (- 52) \<le> ?b" using assms(1) by (rule round_double_gt_one)
  then have b1: "1 \<le> ?b" using zero_less_power_int [of "2::real" "- 52"] by linarith
  have "?b powr (- n) \<le> ?b powr (- 1)"
    using b1 assms(2) by (intro powr_mono) simp_all
  also have "\<dots> = 1 / ?b" using b1 by (simp add: powr_minus_divide)
  also have "\<dots> \<le> 1 / (1 + 2 powi (- 52))"
    using b by (intro divide_left_mono) (simp_all add: power_int_minus)
  also have "\<dots> \<le> 1 - 2 powi (- 53)"
    by (simp add: power_int_minus field_simps)
  finally have v: "?b powr (- n) \<le> 1 - 2 powi (- 53)" .
  have v0: "0 \<le> ?b powr (- n)" by simp
  have "\<bar>?b powr (- n)\<bar> \<le> 1"
    using v v0 by (simp add: power_int_minus)
  then show "\<not> overflows (?b powr (- n))" by (rule not_overflows_le_one)
  have "round_double (?b powr (- n)) \<le> 1 - 2 powi (- 53)"
    using v round_double_below_one by (rule round_double_le)
  then have "2 powi (- 53) \<le> 1 - round_double (?b powr (- n))" by simp
  then show "2 powi (- 53) \<le> float_sub 1 (round_double (?b powr (- n)))"
    unfolding float_sub_def using round_double_pow2_neg53 by (rule round_double_ge)
qed

lemma monthly_payment_base_above_one:
  assumes "1 < float_add 1 (round_double (rate / 12))" "1 \<le> float_mul 12 years"
  shows "calculate_monthly_payment amount rate years =
           Inr (round_double
                  (float_mul amount (round_double (rate / 12))
                   / float_sub 1 (round_double
                       (float_add 1 (round_double (rate / 12)) powr (- float_mul 12 years)))))"
proof -
  let ?b = "float_add 1 (round_double (rate / 12))"
  let ?n = "float_mul 12 years"
  note d = payment_denominator_pos [OF assms [unfolded float_add_def], folded float_add_def]
  have "0 < ?b" using assms(1) by simp
  then have "math_pow ?b (- ?n) = Inr (round_double (?b powr (- ?n)))"
    using d(1) by (simp add: math_pow_pos power_result_def)
  moreover have "float_sub 1 (round_double (?b powr (- ?n))) \<noteq> 0"
    using d(2) zero_less_power_int [of "2::real" "- 53"] by linarith
  ultimately show ?thesis
    by (simp add: calculate_monthly_payment_def Let_def bind_result_def py_div_def)
qed

lemma monthly_payment_base_one:
  assumes "float_add 1 (round_double (rate / 12)) = 1"
  shows "calculate_monthly_payment amount rate years = Inl ZeroDivisionError"
  using assms
  by (simp add: calculate_monthly_payment_def Let_def bind_result_def py_div_def float_sub_def)

lemma float_mul_of_int:
  assumes "\<bar>a * b\<bar> < 2 ^ 53"
  shows "float_mul (of_int a) (of_int b) = of_int (a * b)"
  using round_double_of_int [OF assms] by (simp add: float_mul_def)

lemma float_mul_twelve_term:
  assumes "0 \<le> t" "t \<le> 30"
  shows "float_mul 12 (of_int t) = of_int (12 * t)" "float_mul (of_int t) 12 = of_int (12 * t)"
proof -
  have "\<bar>12 * t\<bar> < 2 ^ 53" using assms by simp
  from float_mul_of_int [OF this] show "float_mul 12 (of_int t) = of_int (12 * t)" by simp
  then show "float_mul (of_int t) 12 = of_int (12 * t)"
    by (simp add: float_mul_def mult.commute)
qed

subsection \<open>Where the opportunity cost and the sweep return\<close>

lemma not_overflows_pow2_1023:
  assumes "\<bar>v\<bar> \<le> 2 powr 1023"
  shows "\<not> overflows v"
proof -
  have "(2::real) powr 1023 = 2 ^ 1023"
    using powr_realpow [of "2::real" 1023] by simp
  moreover have "(2::real) ^ 1023 < 2 ^ 1024 - 2 ^ 970" by simp
  ultimately show ?thesis using assms unfolding overflows_def by linarith
qed

text \<open>
  The power in \<open>calculate_opportunity_cost\<close> is a float: under the guard the base is at
  least 1.
\<close>

lemma opportunity_cost_power:
  assumes "0 < round_double (r / 12)"
  shows "py_pow (float_add 1 (round_double (r / 12))) months =
           map_sum id PyFloat (power_result (float_add 1 (round_double (r / 12)) powr months))"
    and "1 \<le> float_add 1 (round_double (r / 12))"
proof -
  have "round_double 1 \<le> round_double (1 + round_double (r / 12))"
    using assms by (intro round_double_mono) simp
  then show "1 \<le> float_add 1 (round_double (r / 12))" by (simp add: float_add_def)
  then show "py_pow (float_add 1 (round_double (r / 12))) months =
           map_sum id PyFloat (power_result (float_add 1 (round_double (r / 12)) powr months))"
    by (intro py_pow_pos) simp
qed

lemma opportunity_cost_compounding:
  assumes "0 < round_double (r / 12)"
  shows "calculate_opportunity_cost x years r =
           (if overflows (float_add 1 (round_double (r / 12)) powr float_mul years 12)
            then Inl OverflowError
            else Inr (float_mul x
                       (round_double
                          (float_sub
                             (round_double
                                (float_add 1 (round_double (r / 12)) powr float_mul years 12)) 1
                           / round_double (r / 12)))))"
  using assms opportunity_cost_power(1) [OF assms]
  by (simp add: calculate_opportunity_cost_def Let_def bind_result_def py_div_def
      power_result_def)

lemma opportunity_cost_linear:
  assumes "\<not> 0 < round_double (r / 12)"
  shows "calculate_opportunity_cost x years r = Inr (float_mul x (float_mul years 12))"
  using assms by (simp add: calculate_opportunity_cost_def Let_def)

lemma opportunity_cost_returns:
  assumes "float_add 1 (round_double (r / 12)) \<le> 2"
    "0 \<le> float_mul years 12" "float_mul years 12 \<le> 1023"
  shows "\<exists>v. calculate_opportunity_cost x years r = Inr v"
proof (cases "0 < round_double (r / 12)")
  case True
  let ?b = "float_add 1 (round_double (r / 12))"
  have b: "1 \<le> ?b" using True by (rule opportunity_cost_power(2))
  have "?b powr float_mul years 12 \<le> 2 powr float_mul years 12"
    using b assms(1,2) by (intro powr_mono2) simp_all
  also have "\<dots> \<le> 2 powr 1023"
    using assms(3) by (intro powr_mono) simp_all
  finally have "\<bar>?b powr float_mul years 12\<bar> \<le> 2 powr 1023" by simp
  then have "\<not> overflows (?b powr float_mul years 12)" by (rule not_overflows_pow2_1023)
  then show ?thesis using True by (simp add: opportunity_cost_compounding)
next
  case False
  then show ?thesis by (simp add: opportunity_cost_linear)
qed

lemma opportunity_cost_returns_term:
  assumes "float_add 1 (round_double (r / 12)) \<le> 2" "0 \<le> t" "t \<le> 30"
  shows "\<exists>v. calculate_opportunity_cost x (of_int t) r = Inr v"
  using assms(1)
proof (rule opportunity_cost_returns)
  show "0 \<le> float_mul (of_int t) 12" "float_mul (of_int t) 12 \<le> 1023"
    using assms(2,3) by (simp_all add: float_mul_twelve_term)
qed

lemma investment_values_returns:
  assumes "float_add 1 (round_double (investment_return_rate cfg / 12)) \<le> 2"
    "1 \<le> t" "t \<le> 30"
  shows "\<exists>v. investment_values cfg t mp = Inr v"
proof (cases "t < 30")
  case False
  then show ?thesis by (simp add: investment_values_baseline)
next
  case True
  obtain rest where rest: "calculate_opportunity_cost (monthly_salary cfg) (of_int (30 - t))
      (investment_return_rate cfg) = Inr rest"
    using opportunity_cost_returns_term [OF assms(1), of "30 - t"] assms(2,3) by auto
  obtain during where during: "calculate_opportunity_cost
      (float_sub (monthly_salary cfg) mp) (of_int t) (investment_return_rate cfg) = Inr during"
    using opportunity_cost_returns_term [OF assms(1), of t] assms(2,3) by auto
  show ?thesis
    using True rest during
    by (simp add: investment_values_def Let_def bind_result_def del: of_int_diff)
qed

lemma term_sweep_returns:
  assumes "1 < float_add 1 (round_double (annual_interest_rate cfg / 12))"
    "float_add 1 (round_double (investment_return_rate cfg / 12)) \<le> 2"
  shows "\<exists>rs. term_sweep cfg = Inr rs"
proof (rule term_sweep_succeeds_if)
  fix t :: int assume t: "1 \<le> t" "t \<le> 30"
  then have "1 \<le> float_mul 12 (of_int t)" by (simp add: float_mul_twelve_term)
  from monthly_payment_base_above_one [OF assms(1) this]
  show "\<exists>p. calculate_monthly_payment (loan_amount cfg) (annual_interest_rate cfg) (of_int t) = Inr p"
    by blast
  fix mp
  show "\<exists>v. investment_values cfg t mp = Inr v"
    using assms(2) t by (rule investment_values_returns)
qed

subsection \<open>The script at its own configuration\<close>

lemma round_double_fraction:
  assumes "\<bar>m\<bar> < 2 ^ 53" "k \<le> 1074"
  shows "round_double (of_int m / 2 ^ k) = of_int m / 2 ^ k"
proof -
  have "of_int m / 2 ^ k = of_int m * (2::real) powi (- int k)"
    by (simp add: power_int_minus divide_inverse)
  moreover have "- 1074 \<le> - int k" using assms(2) by simp
  ultimately show ?thesis
    using round_double_representable [OF assms(1), of "- int k"] by simp
qed

lemma round_double_between:
  assumes "of_int a / 2 ^ k \<le> x" "x \<le> of_int b / 2 ^ k"
    "\<bar>a\<bar> < 2 ^ 53" "\<bar>b\<bar> < 2 ^ 53" "k \<le> 1074"
  shows "of_int a / 2 ^ k \<le> round_double x" "round_double x \<le> of_int b / 2 ^ k"
  using round_double_ge [OF assms(1) round_double_fraction [OF assms(3,5)]]
    round_double_le [OF assms(2) round_double_fraction [OF assms(4,5)]]
  by simp_all

lemma script_rate_bounds:
  "327 / 4096 \<le> annual_interest_rate script_config"
  "annual_interest_rate script_config \<le> 328 / 4096"
  using round_double_between [of 327 12 "8 / 100" 328]
  by (simp_all add: script_config_def)

lemma script_monthly_rate_bounds:
  "27 / 4096 \<le> round_double (annual_interest_rate script_config / 12)"
  "round_double (annual_interest_rate script_config / 12) \<le> 28 / 4096"
  using round_double_between [of 27 12 "annual_interest_rate script_config / 12" 28]
    script_rate_bounds
  by simp_all

lemma script_base_bounds:
  "4123 / 4096 \<le> float_add 1 (round_double (annual_interest_rate script_config / 12))"
  "float_add 1 (round_double (annual_interest_rate script_config / 12)) \<le> 4124 / 4096"
  using round_double_between
      [of 4123 12 "1 + round_double (annual_interest_rate script_config / 12)" 4124]
    script_monthly_rate_bounds
  by (simp_all add: float_add_def)

lemma script_rate_base: "1 < float_add 1 (round_double (annual_interest_rate script_config / 12))"
  using script_base_bounds(1) by simp

lemma script_investment_base:
  "float_add 1 (round_double (investment_return_rate script_config / 12)) \<le> 2"
proof -
  have "round_double (4 / 10) \<le> 1"
    using round_double_le [of "4 / 10" 1] by simp
  then have "round_double (round_double (4 / 10) / 12) \<le> 1"
    using round_double_le [of "round_double (4 / 10) / 12" 1] by simp
  then have "round_double (1 + round_double (round_double (4 / 10) / 12)) \<le> 2"
    using round_double_le [of "1 + round_double (round_double (4 / 10) / 12)" 2] by simp
  then show ?thesis by (simp add: float_add_def script_config_def)
qed

lemma script_sweep_returns: "\<exists>rs. term_sweep script_config = Inr rs"
  using script_rate_base script_investment_base by (rule term_sweep_returns)

lemma round_double_ge_fraction:
  assumes "of_int a / 2 ^ k \<le> x" "\<bar>a\<bar> < 2 ^ 53" "k \<le> 1074"
  shows "of_int a / 2 ^ k \<le> round_double x"
  using round_double_ge [OF assms(1) round_double_fraction [OF assms(2,3)]] .

lemma round_double_le_fraction:
  assumes "x \<le> of_int b / 2 ^ k" "\<bar>b\<bar> < 2 ^ 53" "k \<le> 1074"
  shows "round_double x \<le> of_int b / 2 ^ k"
  using round_double_le [OF assms(1) round_double_fraction [OF assms(2,3)]] .

lemma script_numerator_bounds:
  "16479 \<le> float_mul (loan_amount script_config)
               (round_double (annual_interest_rate script_config / 12))"
  "float_mul (loan_amount script_config)
     (round_double (annual_interest_rate script_config / 12)) \<le> 17090"
proof -
  let ?m = "round_double (annual_interest_rate script_config / 12)"
  have "16479 \<le> 2500000 * ?m" "2500000 * ?m \<le> 17090"
    using script_monthly_rate_bounds by simp_all
  then show "16479 \<le> float_mul (loan_amount script_config) ?m"
    "float_mul (loan_amount script_config) ?m \<le> 17090"
    using round_double_ge [of 16479 "2500000 * ?m"] round_double_le [of "2500000 * ?m" 17090]
    by (simp_all add: float_mul_def script_config_def)
qed

lemma script_payment_1:
  "\<exists>p. calculate_monthly_payment (loan_amount script_config)
          (annual_interest_rate script_config) (of_int 1) = Inr p \<and> 209620 \<le> p"
proof -
  let ?b = "float_add 1 (round_double (annual_interest_rate script_config / 12))"
  let ?num = "float_mul (loan_amount script_config)
                (round_double (annual_interest_rate script_config / 12))"
  let ?den = "float_sub 1 (round_double (?b powr (- 12)))"
  have n: "float_mul 12 (of_int 1) = 12" using float_mul_twelve_term(1) [of 1] by simp
  have den0: "2 powi (- 53) \<le> ?den"
    using payment_denominator_pos(2) [of "1 + round_double (annual_interest_rate script_config / 12)" 12]
      script_rate_base by (simp add: float_add_def)
  have "(4124 / 4096) powr (- 12) \<le> ?b powr (- 12)"
    using script_base_bounds by (intro powr_mono2') simp_all
  moreover have "(3774 / 4096 :: real) \<le> (4124 / 4096) powr (- 12)"
    by (simp add: powr_minus power_divide)
  ultimately have "3774 / 4096 \<le> ?b powr (- 12)" by linarith
  then have "3774 / 4096 \<le> round_double (?b powr (- 12))"
    using round_double_ge_fraction [of 3774 12 "?b powr (- 12)"] by simp
  then have "1 - round_double (?b powr (- 12)) \<le> 322 / 4096" by simp
  then have den: "?den \<le> 322 / 4096"
    using round_double_le_fraction [of "1 - round_double (?b powr (- 12))" 322 12]
    by (simp add: float_sub_def)
  have den_pos: "0 < ?den" using den0 zero_less_power_int [of "2::real" "- 53"] by linarith
  have "209620 \<le> 16479 / (322 / 4096 :: real)" by simp
  also have "\<dots> \<le> 16479 / ?den"
    using den den_pos by (intro divide_left_mono) simp_all
  also have "\<dots> \<le> ?num / ?den"
    using script_numerator_bounds(1) den_pos by (intro divide_right_mono) simp_all
  finally have "209620 \<le> round_double (?num / ?den)"
    using round_double_ge [of 209620 "?num / ?den"] by simp
  moreover have "calculate_monthly_payment (loan_amount script_config)
      (annual_interest_rate script_config) (of_int 1) = Inr (round_double (?num / ?den))"
    using monthly_payment_base_above_one [OF script_rate_base, of "of_int 1" "loan_amount script_config"]
    unfolding n by simp
  ultimately show ?thesis by blast
qed

lemma script_payment_2:
  "\<exists>p. calculate_monthly_payment (loan_amount script_config)
          (annual_interest_rate script_config) (of_int 2) = Inr p \<and> p \<le> 117255"
proof -
  let ?b = "float_add 1 (round_double (annual_interest_rate script_config / 12))"
  let ?num = "float_mul (loan_amount script_config)
                (round_double (annual_interest_rate script_config / 12))"
  let ?den = "float_sub 1 (round_double (?b powr (- 24)))"
  have n: "float_mul 12 (of_int 2) = 24" using float_mul_twelve_term(1) [of 2] by simp
  have "?b powr (- 24) \<le> (4123 / 4096) powr (- 24)"
    using script_base_bounds by (intro powr_mono2') simp_all
  moreover have "(4123 / 4096) powr (- 24) \<le> (3499 / 4096 :: real)"
    by (simp add: powr_minus power_divide)
  ultimately have "?b powr (- 24) \<le> 3499 / 4096" by linarith
  then have "round_double (?b powr (- 24)) \<le> 3499 / 4096"
    using round_double_le_fraction [of "?b powr (- 24)" 3499 12] by simp
  then have "597 / 4096 \<le> 1 - round_double (?b powr (- 24))" by simp
  then have den: "597 / 4096 \<le> ?den"
    using round_double_ge_fraction [of 597 12 "1 - round_double (?b powr (- 24))"]
    by (simp add: float_sub_def)
  then have den_pos: "0 < ?den" by simp
  have num0: "0 \<le> ?num" using script_numerator_bounds(1) by simp
  have "?num / ?den \<le> 17090 / ?den"
    using script_numerator_bounds(2) den_pos by (intro divide_right_mono) simp_all
  also have "\<dots> \<le> 17090 / (597 / 4096)"
    using den by (intro divide_left_mono) simp_all
  also have "\<dots> \<le> (117255 :: real)" by simp
  finally have "round_double (?num / ?den) \<le> 117255"
    using round_double_le [of "?num / ?den" 117255] by simp
  moreover have "calculate_monthly_payment (loan_amount script_config)
      (annual_interest_rate script_config) (of_int 2) = Inr (round_double (?num / ?den))"
    using monthly_payment_base_above_one [OF script_rate_base, of "of_int 2" "loan_amount script_config"]
    unfolding n by simp
  ultimately show ?thesis by blast
qed

subsection \<open>Underflow, absorption and powers near one\<close>

lemma round_half_even_near:
  assumes "0 \<le> s" "s < 1 / 2"
  shows "round_half_even (of_int m + s) = m"
proof -
  have "\<lfloor>of_int m + s\<rfloor> = m" using assms by (intro floor_unique) simp_all
  then show ?thesis using assms by (simp add: round_half_even_def)
qed

lemma round_half_even_small:
  assumes "\<bar>z\<bar> < 1 / 2"
  shows "round_half_even z = 0"
proof (cases "0 \<le> z")
  case True
  then show ?thesis using round_half_even_near [of z 0] assms by simp
next
  case False
  then have "round_half_even (- z) = 0"
    using round_half_even_near [of "- z" 0] assms by simp
  then show ?thesis by (simp add: round_half_even_minus)
qed

lemma round_double_underflow:
  assumes "\<bar>x\<bar> < 2 powi (- 1075)"
  shows "round_double x = 0"
proof -
  have "(2::real) powi (- 1075) \<le> 2 powi (- 1022)"
    by (intro power_int_increasing) simp_all
  then have "\<bar>x\<bar> < 2 powi (- 1022)" using assms by linarith
  then have "round_double x = of_int (round_half_even (x / 2 powi (- 1074))) * 2 powi (- 1074)"
    by (rule round_double_eval_subnormal)
  moreover have "\<bar>x / 2 powi (- 1074)\<bar> < 1 / 2"
  proof -
    have "\<bar>x / 2 powi (- 1074)\<bar> = \<bar>x\<bar> / 2 powi (- 1074)" by (simp add: abs_divide)
    also have "\<dots> < 2 powi (- 1075) / 2 powi (- 1074)"
      using assms by (intro divide_strict_right_mono) simp_all
    also have "\<dots> = (2::real) powi (- 1075 - (- 1074))"
      by (rule power_int_diff [symmetric]) simp
    also have "\<dots> = 1 / 2" by (simp add: power_int_minus)
    finally show ?thesis .
  qed
  ultimately show ?thesis by (simp add: round_half_even_small)
qed






subsection \<open>The monthly payment at a positive rate\<close>

lemma round_double_pow2_neg60: "round_double (1 / 2 ^ 60) = 1 / 2 ^ 60"
  using round_double_fraction [of 1 60] by simp

lemma tiny_rate_base: "float_add 1 (round_double (12 / 2 ^ 60 / 12)) = 1"
proof -
  have a: "(12 / 2 ^ 60 / 12 :: real) = 1 / 2 ^ 60" by simp
  have c: "round_double (1 + 1 / 2 ^ 60) = 1"
    by (rule round_double_absorb) (simp_all add: power_int_minus field_simps)
  show ?thesis unfolding float_add_def a round_double_pow2_neg60 c ..
qed

lemma rate_twelve_base: "float_add 1 (round_double (12 / 12)) = 2"
  by (simp add: float_add_def)

lemma monthly_payment_positive_rate:
  assumes "0 < rate" "0 < years"
  shows "1 \<le> float_add 1 (round_double (rate / 12))"
    and "calculate_monthly_payment amount rate years =
           (if float_sub 1 (round_double
                 (float_add 1 (round_double (rate / 12)) powr (- float_mul 12 years))) = 0
            then Inl ZeroDivisionError
            else Inr (round_double
                   (float_mul amount (round_double (rate / 12))
                    / float_sub 1 (round_double
                        (float_add 1 (round_double (rate / 12)) powr (- float_mul 12 years))))))"
proof -
  let ?b = "float_add 1 (round_double (rate / 12))"
  let ?n = "float_mul 12 years"
  have r: "0 \<le> round_double (rate / 12)"
    using assms(1) by (intro round_double_nonneg) simp
  have "round_double 1 \<le> round_double (1 + round_double (rate / 12))"
    using r by (intro round_double_mono) simp
  then show b: "1 \<le> ?b" by (simp add: float_add_def)
  have n: "0 \<le> ?n"
    unfolding float_mul_def using assms(2) by (intro round_double_nonneg) simp
  have "?b powr (- ?n) \<le> ?b powr 0"
    using b n by (intro powr_mono) simp_all
  then have "\<bar>?b powr (- ?n)\<bar> \<le> 1" using b by simp
  then have "\<not> overflows (?b powr (- ?n))" by (rule not_overflows_le_one)
  moreover have "0 < ?b" using b by simp
  ultimately have "math_pow ?b (- ?n) = Inr (round_double (?b powr (- ?n)))"
    by (simp add: math_pow_pos power_result_def)
  then show "calculate_monthly_payment amount rate years =
           (if float_sub 1 (round_double (?b powr (- ?n))) = 0
            then Inl ZeroDivisionError
            else Inr (round_double
                   (float_mul amount (round_double (rate / 12))
                    / float_sub 1 (round_double (?b powr (- ?n))))))"
    by (simp add: calculate_monthly_payment_def Let_def bind_result_def py_div_def)
qed

subsection \<open>Dividing by a power\<close>

lemma py_pow_neg_integral:
  "x < 0 \<Longrightarrow> is_integral y \<Longrightarrow>
   py_pow x y = map_sum id PyFloat (power_result (x powi \<lfloor>y\<rfloor>))"
  by (simp add: py_pow_def)

lemma py_pow_neg_fractional:
  "x < 0 \<Longrightarrow> \<not> is_integral y \<Longrightarrow> py_pow x y = complex_pow x y"
  by (simp add: py_pow_def)

lemma py_pow_zero_base:
  "py_pow 0 y = (if y < 0 then Inl ZeroDivisionError
                 else if y = 0 then Inr (PyFloat 1) else Inr (PyFloat 0))"
proof -
  have "\<not> overflows 0" by (simp add: overflows_def)
  moreover have "(0::real) powi \<lfloor>y\<rfloor> = 0" if "0 < y" "is_integral y"
  proof -
    have "of_int \<lfloor>y\<rfloor> = y" using that(2) by (simp add: is_integral_def)
    then have "\<lfloor>y\<rfloor> \<noteq> 0" using that(1) by auto
    then show ?thesis by simp
  qed
  moreover have "\<not> overflows 1" by (simp add: not_overflows_le_one)
  ultimately show ?thesis
    by (auto simp: py_pow_def power_result_def is_integral_def)
qed

lemma divide_by_float_power:
  assumes "py_pow b years = map_sum id PyFloat (power_result w)"
  shows "bind_result (py_pow b years) (py_truediv v) =
           (if overflows w then Inl OverflowError
            else if round_double w = 0 then Inl ZeroDivisionError
            else Inr (PyFloat (round_double (v / round_double w))))"
  unfolding assms by (simp add: power_result_def bind_result_def py_div_def)

lemma divide_by_complex_power:
  fixes res :: "py_error + py_number"
  assumes "res = bind_result (complex_pow b years) (py_truediv v)"
  shows "(\<forall>e. res = Inl e \<longrightarrow> e = OverflowError \<or> e = ZeroDivisionError)
         \<and> (\<forall>n. res = Inr n \<longrightarrow> (\<exists>z. n = PyComplex z))"
  unfolding assms complex_pow_def Let_def bind_result_def
  by (auto split: if_splits)

lemma inflation_base_bounds:
  "1 / 2 ^ 7 \<le> float_add 1 (round_double (- (99 / 100)))"
  "float_add 1 (round_double (- (99 / 100))) \<le> 1 / 2 ^ 6"
proof -
  have lo: "- 127 / 2 ^ 7 \<le> round_double (- (99 / 100))"
    using round_double_ge_fraction [of "- 127" 7 "- (99 / 100)"] by simp
  have hi: "round_double (- (99 / 100)) \<le> - 63 / 2 ^ 6"
    using round_double_le_fraction [of "- (99 / 100)" "- 63" 6] by simp
  show "1 / 2 ^ 7 \<le> float_add 1 (round_double (- (99 / 100)))"
    unfolding float_add_def
    using round_double_ge_fraction [of 1 7 "1 + round_double (- (99 / 100))"] lo by simp
  show "float_add 1 (round_double (- (99 / 100))) \<le> 1 / 2 ^ 6"
    unfolding float_add_def
    using round_double_le_fraction [of "1 + round_double (- (99 / 100))" 1 6] hi by simp
qed

lemma inflation_power_underflows:
  "round_double (float_add 1 (round_double (- (99 / 100))) powr 200) = 0"
  "\<not> overflows (float_add 1 (round_double (- (99 / 100))) powr 200)"
proof -
  let ?b = "float_add 1 (round_double (- (99 / 100)))"
  have b0: "0 < ?b" using inflation_base_bounds(1) by simp
  have "?b powr 200 \<le> (1 / 2 ^ 6) powr 200"
    using inflation_base_bounds(2) b0 by (intro powr_mono2) simp_all
  also have "(1 / 2 ^ 6 :: real) powr 200 = (1 / 2 ^ 6) ^ 200"
    using powr_realpow [of "1 / 2 ^ 6 :: real" 200] by simp
  also have "\<dots> = 1 / 2 ^ 1200" by (simp add: power_divide)
  finally have le: "?b powr 200 \<le> 1 / 2 ^ 1200" .
  have "(1 / 2 ^ 1200 :: real) < 2 powi (- 1075)" by (simp add: power_int_minus field_simps)
  then have "\<bar>?b powr 200\<bar> < 2 powi (- 1075)" using le by simp
  then show "round_double (?b powr 200) = 0" by (rule round_double_underflow)
  have "\<bar>?b powr 200\<bar> \<le> 1" using le by simp
  then show "\<not> overflows (?b powr 200)" by (rule not_overflows_le_one)
qed

subsection \<open>The payment as the term grows\<close>



subsection \<open>A monthly rate of one unit in the last place\<close>







section \<open>The claims\<close>

subsection \<open>The formula library\<close>

text \<open>
  Claim C5 says that an annual rate of zero is handled by a branch returning
  \<open>principal / n\<close>. The code has no such branch: at rate zero the base of the power
  is 1, the denominator \<open>1 - 1\<close> is zero, and the division raises
  \<^verbatim>\<open>ZeroDivisionError\<close>, for every principal and every number of years.
\<close>

theorem monthly_payment_zero_rate_raises:
  "calculate_monthly_payment amount 0 years = Inl ZeroDivisionError"
  by (simp add: calculate_monthly_payment_def float_add_def float_sub_def bind_result_def
      py_div_def Let_def)

text \<open>
  Claim C7. For every principal, payment and number of years,
  \<open>calculate_total_interest\<close> returns \<open>payment * 12 * years - principal\<close>, the two
  products and the difference taken in the program's double arithmetic from left to
  right; it checks nothing and cannot raise.
\<close>

theorem total_interest_formula:
  "calculate_total_interest amount payment years
     = float_sub (float_mul (float_mul payment 12) years) amount"
  by (simp add: calculate_total_interest_def)

text \<open>
  Claim C10. For every annual return rate below zero, \<open>calculate_opportunity_cost\<close>
  takes the branch without growth and returns \<open>x * (years * 12)\<close>, the code's own
  grouping of \<open>x * years * 12\<close>: the guard tests \<open>monthly_return > 0\<close>, so a negative
  rate is not compounded.
\<close>

theorem opportunity_cost_negative_rate_linear:
  "annualReturnRate < 0 \<Longrightarrow>
   calculate_opportunity_cost x years annualReturnRate = Inr (float_mul x (float_mul years 12))"
proof -
  assume "annualReturnRate < 0"
  then have "round_double (annualReturnRate / 12) \<le> 0"
    by (intro round_double_nonpos) simp
  then show ?thesis
    by (simp add: opportunity_cost_linear)
qed

theorem opportunity_cost_negative_rate_linear_witness:
  "round_double (- (6 / 100)) < 0
   \<and> calculate_opportunity_cost 100 2 (round_double (- (6 / 100))) = Inr 2400"
proof -
  have "round_double (- (6 / 100)) \<le> - 1 / 2 ^ 5"
    using round_double_le_fraction [of "- (6 / 100)" "- 1" 5] by simp
  then have neg: "round_double (- (6 / 100)) < 0" by simp
  from opportunity_cost_negative_rate_linear [OF neg, of 100 2] neg
  show ?thesis by (simp add: float_mul_def)
qed

text \<open>
  Claim C1 as stated, for every annual rate above zero: at the rate \<open>12 * 2 ^ (- 60)\<close>,
  about \<open>1.04e-17\<close>, the monthly rate is \<open>2 ^ (- 60)\<close>, one plus it rounds to 1, the
  power is 1 and the denominator zero, and the division raises \<^verbatim>\<open>ZeroDivisionError\<close>;
  nothing is returned.
\<close>

theorem monthly_payment_tiny_rate_counterexample:
  "(0::real) < 12 / 2 ^ 60 \<and> (0::real) < 1
   \<and> calculate_monthly_payment 1200 (12 / 2 ^ 60) 1 = Inl ZeroDivisionError"
  using monthly_payment_base_one [OF tiny_rate_base, of 1200 1] by simp

text \<open>
  Claim C1, amended. For every principal, every annual rate above zero and every number
  of years above zero, \<open>calculate_monthly_payment\<close> evaluates
  \<open>principal * r / (1 - (1 + r) ^ (- n))\<close> with \<open>r = annualRate / 12\<close> and
  \<open>n = 12 * years\<close> in double arithmetic, each operation rounded: it returns the rounded
  quotient when the computed denominator is not zero, and raises
  \<^verbatim>\<open>ZeroDivisionError\<close> when it is. The denominator is zero when \<open>1 + r\<close> rounds to 1,
  and it is not zero when \<open>1 + r\<close> is above 1 and there is at least one payment. No
  other exception is raised.
\<close>

theorem monthly_payment_amortization_formula:
  assumes "0 < annualRate" "0 < years"
  shows "calculate_monthly_payment amount annualRate years =
           (if float_sub 1 (round_double
                 (float_add 1 (round_double (annualRate / 12)) powr (- float_mul 12 years))) = 0
            then Inl ZeroDivisionError
            else Inr (round_double
                   (float_mul amount (round_double (annualRate / 12))
                    / float_sub 1 (round_double
                        (float_add 1 (round_double (annualRate / 12))
                           powr (- float_mul 12 years))))))
    \<and> 1 \<le> float_add 1 (round_double (annualRate / 12))
    \<and> (float_add 1 (round_double (annualRate / 12)) = 1 \<longrightarrow>
          calculate_monthly_payment amount annualRate years = Inl ZeroDivisionError)
    \<and> (1 < float_add 1 (round_double (annualRate / 12)) \<and> 1 \<le> float_mul 12 years \<longrightarrow>
          calculate_monthly_payment amount annualRate years =
            Inr (round_double
                   (float_mul amount (round_double (annualRate / 12))
                    / float_sub 1 (round_double
                        (float_add 1 (round_double (annualRate / 12))
                           powr (- float_mul 12 years))))))"
  using monthly_payment_positive_rate [OF assms]
    monthly_payment_base_one [of annualRate amount years]
    monthly_payment_base_above_one [of annualRate years amount]
  by blast

theorem monthly_payment_amortization_formula_witness:
  "(0::real) < 12 \<and> (0::real) < 1
   \<and> 1 < float_add 1 (round_double (12 / 12)) \<and> 1 \<le> float_mul 12 1
   \<and> calculate_monthly_payment 4095 12 1 = Inr 4096"
proof -
  have b: "float_add 1 (round_double (12 / 12)) = 2" by (rule rate_twelve_base)
  have n: "float_mul 12 1 = 12" by (simp add: float_mul_def)
  have p: "round_double (2 powr (- 12)) = 1 / 2 ^ 12"
    using round_double_fraction [of 1 12] by (simp add: powr_minus inverse_eq_divide)
  have d: "float_sub 1 (1 / 2 ^ 12) = 4095 / 2 ^ 12"
    using round_double_fraction [of 4095 12] by (simp add: float_sub_def)
  have num: "float_mul 4095 (round_double (12 / 12)) = 4095" by (simp add: float_mul_def)
  have q: "round_double (4095 / (4095 / 2 ^ 12)) = 4096" by simp
  have h: "(0::real) < 12" "(0::real) < 1" by simp_all
  have g: "1 < float_add 1 (round_double (12 / 12)) \<and> 1 \<le> float_mul 12 1"
    unfolding b n by simp
  from monthly_payment_amortization_formula [OF h, of 4095] g
  have "calculate_monthly_payment 4095 12 1 =
      Inr (round_double
             (float_mul 4095 (round_double (12 / 12))
              / float_sub 1 (round_double
                  (float_add 1 (round_double (12 / 12)) powr (- float_mul 12 1)))))"
    by blast
  then have "calculate_monthly_payment 4095 12 1 = Inr 4096"
    unfolding b n p d num q .
  with h g show ?thesis by blast
qed

text \<open>
  Claim C2 as stated: at the annual return rate \<open>12 * 2 ^ (- 60)\<close> the monthly return
  \<open>2 ^ (- 60)\<close> is above zero, but one plus it rounds to 1, so the code returns
  \<open>100 * ((1 - 1) / m) = 0\<close> where the formula gives at least 1200. At the rate 12 over
  100 years the power \<open>2 ^ 1200\<close> is too large for a double and the code raises
  \<^verbatim>\<open>OverflowError\<close>.
\<close>

theorem opportunity_cost_compounding_counterexample:
  "(0::real) < 12 / 2 ^ 60 / 12
   \<and> calculate_opportunity_cost 100 1 (12 / 2 ^ 60) = Inr 0
   \<and> (1200::real) \<le> 100 * ((1 + 12 / 2 ^ 60 / 12) ^ 12 - 1) / (12 / 2 ^ 60 / 12)
   \<and> (0::real) < 12 / 12
   \<and> calculate_opportunity_cost 1 100 12 = Inl OverflowError"
proof -
  have a: "(12 / 2 ^ 60 / 12 :: real) = 1 / 2 ^ 60" by simp
  have m: "0 < round_double (12 / 2 ^ 60 / 12)"
    unfolding a round_double_pow2_neg60 by simp
  have p: "round_double (1 powr float_mul 1 12) = 1" by simp
  have z: "float_sub 1 1 = 0" by (simp add: float_sub_def)
  have "calculate_opportunity_cost 100 1 (12 / 2 ^ 60) = Inr 0"
    unfolding opportunity_cost_compounding [OF m] tiny_rate_base
    by (simp add: not_overflows_le_one z float_mul_def)
  moreover have "(1200::real) \<le> 100 * ((1 + 12 / 2 ^ 60 / 12) ^ 12 - 1) / (12 / 2 ^ 60 / 12)"
  proof -
    have "1 + real 12 * (1 / 2 ^ 60) \<le> (1 + 1 / 2 ^ 60 :: real) ^ 12"
      by (rule Bernoulli_inequality) simp
    then have "12 * (1 / 2 ^ 60) \<le> (1 + 1 / 2 ^ 60 :: real) ^ 12 - 1" by simp
    then have "12 \<le> ((1 + 1 / 2 ^ 60 :: real) ^ 12 - 1) / (1 / 2 ^ 60)"
      by (simp add: pos_le_divide_eq)
    then show ?thesis unfolding a by simp
  qed
  moreover have "calculate_opportunity_cost 1 100 12 = Inl OverflowError"
  proof -
    have m1: "0 < round_double (12 / 12)" by simp
    have n: "float_mul 100 12 = 1200" by (simp add: float_mul_def)
    have "(2::real) powr 1200 = 2 ^ 1200"
      using powr_realpow [of "2::real" 1200] by simp
    then have "overflows (2 powr 1200)" by (simp add: overflows_def)
    then show ?thesis
      unfolding opportunity_cost_compounding [OF m1] rate_twelve_base n by simp
  qed
  ultimately show ?thesis by simp
qed

text \<open>
  Claim C2, amended. When the monthly return \<open>m = annualReturnRate / 12\<close>, rounded to a
  double, is above zero, \<open>calculate_opportunity_cost\<close> evaluates
  \<open>x * (((1 + m) ^ n - 1) / m)\<close> with \<open>n = years * 12\<close> in double arithmetic, each
  operation rounded, and returns it, unless the power is too large for a double, when
  it raises \<^verbatim>\<open>OverflowError\<close>. When the monthly return is zero it returns
  \<open>x * n\<close>; at rate zero this is \<open>x * (years * 12)\<close>.
\<close>

theorem opportunity_cost_annuity_formula:
  "(0 < round_double (annualReturnRate / 12) \<longrightarrow>
      calculate_opportunity_cost x years annualReturnRate =
        (if overflows (float_add 1 (round_double (annualReturnRate / 12))
                         powr float_mul years 12)
         then Inl OverflowError
         else Inr (float_mul x
                     (round_double
                        (float_sub
                           (round_double
                              (float_add 1 (round_double (annualReturnRate / 12))
                                 powr float_mul years 12)) 1
                         / round_double (annualReturnRate / 12))))))
   \<and> (round_double (annualReturnRate / 12) = 0 \<longrightarrow>
      calculate_opportunity_cost x years annualReturnRate
        = Inr (float_mul x (float_mul years 12)))
   \<and> calculate_opportunity_cost x years 0 = Inr (float_mul x (float_mul years 12))"
  by (simp add: opportunity_cost_compounding opportunity_cost_linear)

theorem opportunity_cost_annuity_formula_witness:
  "0 < round_double (12 / 12)
   \<and> calculate_opportunity_cost 100 1 12 = Inr 409500
   \<and> round_double (0 / 12) = 0
   \<and> calculate_opportunity_cost 100 1 0 = Inr 1200"
proof -
  have m: "0 < round_double (12 / 12)" by simp
  have n: "float_mul 1 12 = 12" by (simp add: float_mul_def)
  have "(2::real) powr 12 = 4096" using powr_realpow [of "2::real" 12] by simp
  then have p: "(2::real) powr 12 = 4096" "\<not> overflows (2 powr 12)"
    by (simp_all add: overflows_def)
  from opportunity_cost_annuity_formula [of 12 100 1] m
  have "calculate_opportunity_cost 100 1 12 = Inr 409500"
    unfolding rate_twelve_base n using p by (simp add: float_sub_def float_mul_def)
  moreover from opportunity_cost_annuity_formula [of 0 100 1]
  have "calculate_opportunity_cost 100 1 0 = Inr 1200"
    by (simp add: float_mul_def)
  ultimately show ?thesis using m by simp
qed

subsection \<open>Discounting\<close>

text \<open>
  Claim C8 as stated, for every rate: at an inflation rate of \<open>-1\<close> and one year the base
  of the power is zero, \<^verbatim>\<open>pow(0.0, 1)\<close> is zero, and the division raises
  \<^verbatim>\<open>ZeroDivisionError\<close>. The same happens on a base above zero: at the rate \<open>-0.99\<close>
  and 200 years the power is below the smallest double and underflows to zero. Nothing
  is returned in either case.
\<close>

theorem inflation_adjusted_value_zero_power_counterexample:
  "calculate_inflation_adjusted_value 100 1 (- 1) = Inl ZeroDivisionError
   \<and> 0 < float_add 1 (round_double (- (99 / 100)))
   \<and> calculate_inflation_adjusted_value 100 200 (round_double (- (99 / 100)))
       = Inl ZeroDivisionError"
proof -
  have "float_add 1 (- 1) = 0" by (simp add: float_add_def)
  then have "calculate_inflation_adjusted_value 100 1 (- 1) = Inl ZeroDivisionError"
    by (simp add: calculate_inflation_adjusted_value_def py_pow_zero_base bind_result_def
        py_div_def)
  moreover have b: "0 < float_add 1 (round_double (- (99 / 100)))"
    using inflation_base_bounds(1) by simp
  moreover have "calculate_inflation_adjusted_value 100 200 (round_double (- (99 / 100)))
       = Inl ZeroDivisionError"
    unfolding calculate_inflation_adjusted_value_def
      divide_by_float_power [OF py_pow_pos [OF b]]
    using inflation_power_underflows by simp
  ultimately show ?thesis by simp
qed

text \<open>
  Claim C8, amended. For every future value, number of years (fractional or not) and
  inflation rate, \<open>calculate_inflation_adjusted_value\<close> evaluates
  \<open>futureValue / (1 + annualInflationRate) ^ years\<close> in double arithmetic. On a base
  above zero, and on a base below zero with an integral number of years, it returns
  the rounded quotient, unless the power is too large for a double, when it raises
  \<^verbatim>\<open>OverflowError\<close>, or rounds to zero, when it raises \<^verbatim>\<open>ZeroDivisionError\<close>. On a
  base below zero with a fractional number of years the power and the quotient are
  complex numbers, and the only exceptions are the same two. On a zero base with a
  number of years other than zero it raises \<^verbatim>\<open>ZeroDivisionError\<close>. For zero years it
  returns the future value unchanged, at every rate.
\<close>

theorem inflation_adjusted_value_formula:
  "(0 < float_add 1 annualInflationRate \<longrightarrow>
      calculate_inflation_adjusted_value futureValue years annualInflationRate =
        (if overflows (float_add 1 annualInflationRate powr years) then Inl OverflowError
         else if round_double (float_add 1 annualInflationRate powr years) = 0
           then Inl ZeroDivisionError
         else Inr (PyFloat (round_double
                 (futureValue / round_double (float_add 1 annualInflationRate powr years))))))
   \<and> (float_add 1 annualInflationRate < 0 \<and> is_integral years \<longrightarrow>
      calculate_inflation_adjusted_value futureValue years annualInflationRate =
        (if overflows (float_add 1 annualInflationRate powi \<lfloor>years\<rfloor>) then Inl OverflowError
         else if round_double (float_add 1 annualInflationRate powi \<lfloor>years\<rfloor>) = 0
           then Inl ZeroDivisionError
         else Inr (PyFloat (round_double
                 (futureValue
                  / round_double (float_add 1 annualInflationRate powi \<lfloor>years\<rfloor>))))))
   \<and> (float_add 1 annualInflationRate < 0 \<and> \<not> is_integral years \<longrightarrow>
      calculate_inflation_adjusted_value futureValue years annualInflationRate =
        bind_result (complex_pow (float_add 1 annualInflationRate) years)
          (py_truediv futureValue)
      \<and> (\<forall>e. calculate_inflation_adjusted_value futureValue years annualInflationRate = Inl e
             \<longrightarrow> e = OverflowError \<or> e = ZeroDivisionError)
      \<and> (\<forall>n. calculate_inflation_adjusted_value futureValue years annualInflationRate = Inr n
             \<longrightarrow> (\<exists>z. n = PyComplex z)))
   \<and> (float_add 1 annualInflationRate = 0 \<and> years \<noteq> 0 \<longrightarrow>
      calculate_inflation_adjusted_value futureValue years annualInflationRate
        = Inl ZeroDivisionError)
   \<and> (round_double futureValue = futureValue \<longrightarrow>
      calculate_inflation_adjusted_value futureValue 0 annualInflationRate
        = Inr (PyFloat futureValue))"
proof (intro conjI impI)
  let ?b = "float_add 1 annualInflationRate"
  let ?res = "calculate_inflation_adjusted_value futureValue years annualInflationRate"
  show "?res = (if overflows (?b powr years) then Inl OverflowError
         else if round_double (?b powr years) = 0 then Inl ZeroDivisionError
         else Inr (PyFloat (round_double (futureValue / round_double (?b powr years)))))"
    if "0 < ?b"
    unfolding calculate_inflation_adjusted_value_def
    by (rule divide_by_float_power [OF py_pow_pos [OF that]])
  show "?res = (if overflows (?b powi \<lfloor>years\<rfloor>) then Inl OverflowError
         else if round_double (?b powi \<lfloor>years\<rfloor>) = 0 then Inl ZeroDivisionError
         else Inr (PyFloat (round_double (futureValue / round_double (?b powi \<lfloor>years\<rfloor>)))))"
    if "?b < 0 \<and> is_integral years"
    unfolding calculate_inflation_adjusted_value_def
    using that by (intro divide_by_float_power py_pow_neg_integral) simp_all
  have c: "?res = bind_result (complex_pow ?b years) (py_truediv futureValue)"
    if "?b < 0 \<and> \<not> is_integral years"
    using that by (simp add: calculate_inflation_adjusted_value_def py_pow_neg_fractional)
  then show "?res = bind_result (complex_pow ?b years) (py_truediv futureValue)"
    if "?b < 0 \<and> \<not> is_integral years" using that .
  show "\<forall>e. ?res = Inl e \<longrightarrow> e = OverflowError \<or> e = ZeroDivisionError"
    if "?b < 0 \<and> \<not> is_integral years"
    using divide_by_complex_power [OF c [OF that]] by blast
  show "\<forall>n. ?res = Inr n \<longrightarrow> (\<exists>z. n = PyComplex z)"
    if "?b < 0 \<and> \<not> is_integral years"
    using divide_by_complex_power [OF c [OF that]] by blast
  show "?res = Inl ZeroDivisionError" if "?b = 0 \<and> years \<noteq> 0"
    using that
    by (simp add: calculate_inflation_adjusted_value_def py_pow_zero_base bind_result_def
        py_div_def)
  show "calculate_inflation_adjusted_value futureValue 0 annualInflationRate
        = Inr (PyFloat futureValue)"
    if "round_double futureValue = futureValue"
    using that
    by (simp add: calculate_inflation_adjusted_value_def bind_result_def py_div_def)
qed

theorem inflation_adjusted_value_formula_witness:
  "0 < float_add 1 3
   \<and> calculate_inflation_adjusted_value 100 (1 / 2) 3 = Inr (PyFloat 50)
   \<and> (float_add 1 (- 3) < 0 \<and> is_integral 3)
   \<and> calculate_inflation_adjusted_value 100 3 (- 3) = Inr (PyFloat (- (25 / 2)))
   \<and> (float_add 1 (- 3) < 0 \<and> \<not> is_integral (1 / 2))
   \<and> calculate_inflation_adjusted_value 100 (1 / 2) (- 3)
       = bind_result (complex_pow (- 2) (1 / 2)) (py_truediv 100)
   \<and> (float_add 1 (- 1) = 0 \<and> (1::real) \<noteq> 0)
   \<and> calculate_inflation_adjusted_value 100 1 (- 1) = Inl ZeroDivisionError
   \<and> round_double 100 = 100
   \<and> calculate_inflation_adjusted_value 100 0 (- 1) = Inr (PyFloat 100)"
proof -
  have b4: "float_add 1 3 = 4" and bm2: "float_add 1 (- 3) = - 2"
    and b0: "float_add 1 (- 1) = 0"
    by (simp_all add: float_add_def)
  have i3: "is_integral 3" and ih: "\<not> is_integral (1 / 2)"
    by (simp_all add: is_integral_def)
  have sq: "(4::real) powr (1 / 2) = 2" by (simp add: powr_half_sqrt)
  have no2: "\<not> overflows 2" and no8: "\<not> overflows (- 8)" by (simp_all add: overflows_def)
  have half: "round_double (- (25 / 2)) = - (25 / 2)"
    using round_double_fraction [of "- 25" 1] by simp
  have p8: "(- 2 :: real) powi \<lfloor>3 :: real\<rfloor> = - 8" by simp
  note t = inflation_adjusted_value_formula
  have "calculate_inflation_adjusted_value 100 (1 / 2) 3 = Inr (PyFloat 50)"
    using t [of 3 100 "1 / 2"] unfolding b4 sq using no2 by simp
  moreover have "calculate_inflation_adjusted_value 100 3 (- 3) = Inr (PyFloat (- (25 / 2)))"
    using t [of "- 3" 100 3] i3 unfolding bm2 p8 using no8 half by simp
  moreover have "calculate_inflation_adjusted_value 100 (1 / 2) (- 3)
       = bind_result (complex_pow (- 2) (1 / 2)) (py_truediv 100)"
    using t [of "- 3" 100 "1 / 2"] ih unfolding bm2 by simp
  moreover have "calculate_inflation_adjusted_value 100 1 (- 1) = Inl ZeroDivisionError"
    using t [of "- 1" 100 1] unfolding b0 by simp
  moreover have "calculate_inflation_adjusted_value 100 0 (- 1) = Inr (PyFloat 100)"
    using t [of "- 1" 100 0] by simp
  ultimately show ?thesis
    using i3 ih unfolding b4 bm2 b0 by simp
qed

subsection \<open>The term sweep\<close>

text \<open>
  Claim C9. The term sweep produces an ordered sequence of exactly 30 records, one for
  each integer term from 1 to 30: the record at index \<open>i\<close> has term \<open>i + 1\<close>. The
  sweep returns whenever one plus the monthly interest rate is above 1 in double
  arithmetic and one plus the monthly investment return is at most 2, as at the
  script's own constants, and every list it returns has this shape.
\<close>

theorem term_sweep_thirty_records:
  "(1 < float_add 1 (round_double (annual_interest_rate cfg / 12))
      \<and> float_add 1 (round_double (investment_return_rate cfg / 12)) \<le> 2
      \<longrightarrow> (\<exists>rs. term_sweep cfg = Inr rs))
   \<and> (\<forall>rs. term_sweep cfg = Inr rs \<longrightarrow>
         length rs = 30 \<and> map term_years rs = [1..30]
         \<and> (\<forall>i < 30. term_years (rs ! i) = int i + 1))"
proof (intro conjI impI allI)
  assume "1 < float_add 1 (round_double (annual_interest_rate cfg / 12))
      \<and> float_add 1 (round_double (investment_return_rate cfg / 12)) \<le> 2"
  then show "\<exists>rs. term_sweep cfg = Inr rs" by (intro term_sweep_returns) simp_all
next
  fix rs assume rs: "term_sweep cfg = Inr rs"
  show "length rs = 30" using rs by (rule term_sweep_length)
  show "map term_years rs = [1..30]" using rs by (rule term_sweep_terms)
  fix i :: nat assume i: "i < 30"
  from term_sweep_nth_term [OF rs i] show "term_years (rs ! i) = int i + 1" by simp
qed

theorem term_sweep_thirty_records_witness:
  "1 < float_add 1 (round_double (annual_interest_rate script_config / 12))
   \<and> float_add 1 (round_double (investment_return_rate script_config / 12)) \<le> 2
   \<and> (\<exists>rs. term_sweep script_config = Inr rs \<and> length rs = 30
         \<and> map term_years rs = [1..30] \<and> (\<forall>i < 30. term_years (rs ! i) = int i + 1))"
  using term_sweep_thirty_records [of script_config] script_rate_base script_investment_base
  by blast



text \<open>
  Claim C3. For every record of the sweep with a term from 1 to 29, whose payment is
  the monthly payment of that term: when the surplus \<open>monthly_salary - payment\<close> is
  below zero, the investment value during the term is 0 and the total investment value
  is the future value of the full salary over the remaining \<open>30 - term\<close> years; when
  the surplus is zero or more, the value during the term is the future value of the
  surplus over the term, and the total is that value plus the future value of the full
  salary over the remaining years.
\<close>

theorem investment_values_by_surplus:
  assumes "term_sweep cfg = Inr rs" "r \<in> set rs" "term_years r < 30"
  shows "1 \<le> term_years r
    \<and> calculate_monthly_payment (loan_amount cfg) (annual_interest_rate cfg)
          (of_int (term_years r)) = Inr (monthly_payment r)
    \<and> (float_sub (monthly_salary cfg) (monthly_payment r) < 0 \<longrightarrow>
          investment_value_in_term r = 0
          \<and> calculate_opportunity_cost (monthly_salary cfg) (of_int (30 - term_years r))
                (investment_return_rate cfg) = Inr (investment_value r))
    \<and> (0 \<le> float_sub (monthly_salary cfg) (monthly_payment r) \<longrightarrow>
          calculate_opportunity_cost (float_sub (monthly_salary cfg) (monthly_payment r))
              (of_int (term_years r)) (investment_return_rate cfg)
            = Inr (investment_value_in_term r)
          \<and> (\<exists>rest. calculate_opportunity_cost (monthly_salary cfg)
                        (of_int (30 - term_years r)) (investment_return_rate cfg) = Inr rest
                \<and> investment_value r = float_add (investment_value_in_term r) rest))"
proof -
  from term_sweep_member [OF assms(1,2)] obtain c where
    r: "term_record cfg c (term_years r) = Inr r" by blast
  note d = term_record_InrD [OF r]
  have range: "1 \<le> term_years r"
    using term_sweep_term_range [OF assms(1,2)] by simp
  have neg: "investment_value_in_term r = 0
      \<and> calculate_opportunity_cost (monthly_salary cfg) (of_int (30 - term_years r))
            (investment_return_rate cfg) = Inr (investment_value r)"
    if "float_sub (monthly_salary cfg) (monthly_payment r) < 0"
    using d(6) assms(3) that by (rule investment_values_negative)
  have pos: "calculate_opportunity_cost (float_sub (monthly_salary cfg) (monthly_payment r))
              (of_int (term_years r)) (investment_return_rate cfg)
            = Inr (investment_value_in_term r)
          \<and> (\<exists>rest. calculate_opportunity_cost (monthly_salary cfg)
                        (of_int (30 - term_years r)) (investment_return_rate cfg) = Inr rest
                \<and> investment_value r = float_add (investment_value_in_term r) rest)"
    if "0 \<le> float_sub (monthly_salary cfg) (monthly_payment r)"
    using d(6) assms(3) that by (intro investment_values_nonnegative) simp_all
  from range d(2) neg pos show ?thesis by blast
qed

theorem investment_values_by_surplus_witness:
  "\<exists>rs r1 r2. term_sweep script_config = Inr rs
     \<and> r1 \<in> set rs \<and> term_years r1 < 30
     \<and> float_sub (monthly_salary script_config) (monthly_payment r1) < 0
     \<and> investment_value_in_term r1 = 0
     \<and> calculate_opportunity_cost (monthly_salary script_config)
           (of_int (30 - term_years r1)) (investment_return_rate script_config)
         = Inr (investment_value r1)
     \<and> r2 \<in> set rs \<and> term_years r2 < 30
     \<and> 0 \<le> float_sub (monthly_salary script_config) (monthly_payment r2)
     \<and> calculate_opportunity_cost
           (float_sub (monthly_salary script_config) (monthly_payment r2))
           (of_int (term_years r2)) (investment_return_rate script_config)
         = Inr (investment_value_in_term r2)"
proof -
  from script_sweep_returns obtain rs where
    rs: "term_sweep script_config = Inr rs" by blast
  have m1: "rs ! 0 \<in> set rs" and t1: "term_years (rs ! 0) = 1"
    using term_sweep_nth_term [OF rs, of 0] by simp_all
  have m2: "rs ! 1 \<in> set rs" and t2: "term_years (rs ! 1) = 2"
    using term_sweep_nth_term [OF rs, of 1] by simp_all
  have l1: "term_years (rs ! 0) < 30" and l2: "term_years (rs ! 1) < 30"
    using t1 t2 by simp_all
  note w1 = investment_values_by_surplus [OF rs m1 l1]
  note w2 = investment_values_by_surplus [OF rs m2 l2]
  have "209620 \<le> monthly_payment (rs ! 0)"
    using w1 script_payment_1 unfolding t1 by auto
  then have "monthly_salary script_config - monthly_payment (rs ! 0) \<le> - 9620"
    by (simp add: script_config_def)
  then have "float_sub (monthly_salary script_config) (monthly_payment (rs ! 0)) \<le> - 9620"
    unfolding float_sub_def by (intro round_double_le) simp_all
  then have s1: "float_sub (monthly_salary script_config) (monthly_payment (rs ! 0)) < 0"
    by simp
  have "monthly_payment (rs ! 1) \<le> 117255"
    using w2 script_payment_2 unfolding t2 by auto
  then have "0 \<le> monthly_salary script_config - monthly_payment (rs ! 1)"
    by (simp add: script_config_def)
  then have s2: "0 \<le> float_sub (monthly_salary script_config) (monthly_payment (rs ! 1))"
    unfolding float_sub_def by (rule round_double_nonneg)
  from w1 s1 w2 s2 rs m1 m2 l1 l2 show ?thesis by blast
qed




end
